theory Spec2Isabelle
  imports Complex_Main
begin

section \<open>Floating-point numbers\<close>

text \<open>
  A JavaScript \<^verbatim>\<open>number\<close> is an IEEE 754 double and a GLSL \<^verbatim>\<open>float\<close>, like an element
  of a \<^verbatim>\<open>Float32Array\<close>, an IEEE 754 single: a finite value, one of the two infinities,
  or NaN. A finite value is held as the \<^typ>\<open>real\<close> it denotes, and every operation
  rounds its exact result to the format (to nearest, ties to even, with gradual
  underflow and with overflow to an infinity). The two zeros are identified.
\<close>

datatype jsnum = Fin real | PInf | NInf | NaN

text \<open>The sign of an infinite result: \<open>PInf\<close> when \<open>pos\<close>, else \<open>NInf\<close>.\<close>

definition js_inf :: "bool \<Rightarrow> jsnum" where
  "js_inf pos = (if pos then PInf else NInf)"

text \<open>Rounding of a real to the nearest integer, a tie going to the even one.\<close>

definition rne :: "real \<Rightarrow> int" where
  "rne r =
     (let f = \<lfloor>r\<rfloor>; d = r - of_int f
      in if d < 1 / 2 then f else if 1 / 2 < d then f + 1 else if even f then f else f + 1)"

text \<open>
  A binary format has \<open>p\<close> digits of precision and exponents from \<open>emin\<close> to \<open>emax\<close>.
  \<open>binade\<close> is the exponent of the binade of \<open>x\<close>, which is \<open>emin\<close> for the subnormal
  numbers; the numbers of the format in that binade are the multiples of
  \<open>2 powi (binade - p + 1)\<close>, and \<open>roundTo\<close> rounds \<open>x\<close> to the nearest of them.
\<close>

definition binade :: "int \<Rightarrow> real \<Rightarrow> int" where
  "binade emin x = max emin \<lfloor>log 2 \<bar>x\<bar>\<rfloor>"

definition roundTo :: "nat \<Rightarrow> int \<Rightarrow> real \<Rightarrow> real" where
  "roundTo p emin x =
     (if x = 0 then 0
      else (let u = 2 powi (binade emin x - int p + 1) in of_int (rne (x / u)) * u))"

text \<open>The rounded value overflows to an infinity when it reaches \<open>2 powi (emax + 1)\<close>.\<close>

definition toFloat :: "nat \<Rightarrow> int \<Rightarrow> int \<Rightarrow> real \<Rightarrow> jsnum" where
  "toFloat p emin emax x =
     (let y = roundTo p emin x
      in if 2 powi (emax + 1) \<le> \<bar>y\<bar> then js_inf (0 < y) else Fin y)"

definition toDouble :: "real \<Rightarrow> jsnum" where
  "toDouble = toFloat 53 (- 1022) 1023"

definition toSingle :: "real \<Rightarrow> jsnum" where
  "toSingle = toFloat 24 (- 126) 127"

text \<open>
  The arithmetic of IEEE 754 on the four kinds of values; \<open>rd\<close> rounds the exact
  result of two finite operands to the format.
\<close>

fun js_neg :: "jsnum \<Rightarrow> jsnum" where
  "js_neg (Fin a) = Fin (- a)"
| "js_neg PInf = NInf"
| "js_neg NInf = PInf"
| "js_neg NaN = NaN"

fun ieee_add :: "(real \<Rightarrow> jsnum) \<Rightarrow> jsnum \<Rightarrow> jsnum \<Rightarrow> jsnum" where
  "ieee_add rd NaN _ = NaN"
| "ieee_add rd _ NaN = NaN"
| "ieee_add rd (Fin a) (Fin b) = rd (a + b)"
| "ieee_add rd PInf NInf = NaN"
| "ieee_add rd NInf PInf = NaN"
| "ieee_add rd PInf _ = PInf"
| "ieee_add rd _ PInf = PInf"
| "ieee_add rd NInf _ = NInf"
| "ieee_add rd _ NInf = NInf"

fun ieee_mul :: "(real \<Rightarrow> jsnum) \<Rightarrow> jsnum \<Rightarrow> jsnum \<Rightarrow> jsnum" where
  "ieee_mul rd NaN _ = NaN"
| "ieee_mul rd _ NaN = NaN"
| "ieee_mul rd (Fin a) (Fin b) = rd (a * b)"
| "ieee_mul rd (Fin a) PInf = (if a = 0 then NaN else js_inf (0 < a))"
| "ieee_mul rd (Fin a) NInf = (if a = 0 then NaN else js_inf (a < 0))"
| "ieee_mul rd PInf (Fin b) = (if b = 0 then NaN else js_inf (0 < b))"
| "ieee_mul rd NInf (Fin b) = (if b = 0 then NaN else js_inf (b < 0))"
| "ieee_mul rd PInf PInf = PInf"
| "ieee_mul rd PInf NInf = NInf"
| "ieee_mul rd NInf PInf = NInf"
| "ieee_mul rd NInf NInf = PInf"

fun ieee_div :: "(real \<Rightarrow> jsnum) \<Rightarrow> jsnum \<Rightarrow> jsnum \<Rightarrow> jsnum" where
  "ieee_div rd NaN _ = NaN"
| "ieee_div rd _ NaN = NaN"
| "ieee_div rd (Fin a) (Fin b) =
     (if b \<noteq> 0 then rd (a / b) else if a = 0 then NaN else js_inf (0 < a))"
| "ieee_div rd (Fin a) PInf = Fin 0"
| "ieee_div rd (Fin a) NInf = Fin 0"
| "ieee_div rd PInf (Fin b) = js_inf (0 \<le> b)"
| "ieee_div rd NInf (Fin b) = js_inf (b < 0)"
| "ieee_div rd PInf PInf = NaN"
| "ieee_div rd PInf NInf = NaN"
| "ieee_div rd NInf PInf = NaN"
| "ieee_div rd NInf NInf = NaN"

text \<open>The operators \<^verbatim>\<open>+\<close>, \<^verbatim>\<open>-\<close>, \<^verbatim>\<open>*\<close> and \<^verbatim>\<open>/\<close> of JavaScript, on doubles.\<close>

definition js_add :: "jsnum \<Rightarrow> jsnum \<Rightarrow> jsnum" where
  "js_add a b = ieee_add toDouble a b"

definition js_sub :: "jsnum \<Rightarrow> jsnum \<Rightarrow> jsnum" where
  "js_sub a b = ieee_add toDouble a (js_neg b)"

definition js_mul :: "jsnum \<Rightarrow> jsnum \<Rightarrow> jsnum" where
  "js_mul a b = ieee_mul toDouble a b"

definition js_div :: "jsnum \<Rightarrow> jsnum \<Rightarrow> jsnum" where
  "js_div a b = ieee_div toDouble a b"

text \<open>
  The same operators in a shader, on singles. Each operation is taken to round
  correctly, as the arithmetic of IEEE 754 does.
\<close>

definition f32_add :: "jsnum \<Rightarrow> jsnum \<Rightarrow> jsnum" where
  "f32_add a b = ieee_add toSingle a b"

definition f32_sub :: "jsnum \<Rightarrow> jsnum \<Rightarrow> jsnum" where
  "f32_sub a b = ieee_add toSingle a (js_neg b)"

definition f32_mul :: "jsnum \<Rightarrow> jsnum \<Rightarrow> jsnum" where
  "f32_mul a b = ieee_mul toSingle a b"

definition f32_div :: "jsnum \<Rightarrow> jsnum \<Rightarrow> jsnum" where
  "f32_div a b = ieee_div toSingle a b"

text \<open>
  \<^verbatim>\<open>a % b\<close>: the remainder has the sign of the dividend (truncating division); it is
  computed without rounding.
\<close>

definition js_trunc :: "real \<Rightarrow> real" where
  "js_trunc q = (if 0 \<le> q then of_int \<lfloor>q\<rfloor> else of_int \<lceil>q\<rceil>)"

fun js_rem :: "jsnum \<Rightarrow> jsnum \<Rightarrow> jsnum" where
  "js_rem (Fin a) (Fin b) = (if b = 0 then NaN else Fin (a - b * js_trunc (a / b)))"
| "js_rem (Fin a) PInf = Fin a"
| "js_rem (Fin a) NInf = Fin a"
| "js_rem _ _ = NaN"

text \<open>\<^verbatim>\<open>a < b\<close> and \<^verbatim>\<open>a <= b\<close> on numbers: false as soon as one side is NaN.\<close>

fun js_lt :: "jsnum \<Rightarrow> jsnum \<Rightarrow> bool" where
  "js_lt NaN _ = False"
| "js_lt _ NaN = False"
| "js_lt (Fin a) (Fin b) = (a < b)"
| "js_lt _ NInf = False"
| "js_lt PInf _ = False"
| "js_lt NInf _ = True"
| "js_lt _ PInf = True"

fun js_le :: "jsnum \<Rightarrow> jsnum \<Rightarrow> bool" where
  "js_le NaN _ = False"
| "js_le _ NaN = False"
| "js_le (Fin a) (Fin b) = (a \<le> b)"
| "js_le NInf _ = True"
| "js_le _ PInf = True"
| "js_le _ NInf = False"
| "js_le PInf _ = False"

text \<open>Truthiness of a number, and \<^verbatim>\<open>a || b\<close> on numbers: 0 and NaN are falsy.\<close>

definition js_truthy :: "jsnum \<Rightarrow> bool" where
  "js_truthy v = (v \<noteq> NaN \<and> v \<noteq> Fin 0)"

definition js_or :: "jsnum \<Rightarrow> jsnum \<Rightarrow> jsnum" where
  "js_or a b = (if js_truthy a then a else b)"

fun Math_max :: "jsnum \<Rightarrow> jsnum \<Rightarrow> jsnum" where
  "Math_max NaN _ = NaN"
| "Math_max _ NaN = NaN"
| "Math_max (Fin a) (Fin b) = Fin (max a b)"
| "Math_max PInf _ = PInf"
| "Math_max _ PInf = PInf"
| "Math_max NInf b = b"
| "Math_max a NInf = a"

fun Math_min :: "jsnum \<Rightarrow> jsnum \<Rightarrow> jsnum" where
  "Math_min NaN _ = NaN"
| "Math_min _ NaN = NaN"
| "Math_min (Fin a) (Fin b) = Fin (min a b)"
| "Math_min NInf _ = NInf"
| "Math_min _ NInf = NInf"
| "Math_min PInf b = b"
| "Math_min a PInf = a"

text \<open>\<^verbatim>\<open>Math.sqrt\<close> is the correctly rounded square root.\<close>

fun Math_sqrt :: "jsnum \<Rightarrow> jsnum" where
  "Math_sqrt (Fin a) = (if a < 0 then NaN else toDouble (sqrt a))"
| "Math_sqrt PInf = PInf"
| "Math_sqrt NInf = NaN"
| "Math_sqrt NaN = NaN"

fun Math_ceil :: "jsnum \<Rightarrow> jsnum" where
  "Math_ceil (Fin a) = Fin (of_int \<lceil>a\<rceil>)"
| "Math_ceil v = v"

fun Math_floor :: "jsnum \<Rightarrow> jsnum" where
  "Math_floor (Fin a) = Fin (of_int \<lfloor>a\<rfloor>)"
| "Math_floor v = v"

text \<open>\<^verbatim>\<open>Math.round\<close> rounds to the nearest integer, a tie going up.\<close>

fun Math_round :: "jsnum \<Rightarrow> jsnum" where
  "Math_round (Fin a) = Fin (of_int \<lfloor>a + 1 / 2\<rfloor>)"
| "Math_round v = v"

text \<open>
  \<^verbatim>\<open>Math.fround\<close>, the conversion of a double to the nearest single. A store into a
  \<^verbatim>\<open>Float32Array\<close> and the upload of a uniform of type \<^verbatim>\<open>float\<close> convert like it.
\<close>

fun Math_fround :: "jsnum \<Rightarrow> jsnum" where
  "Math_fround (Fin a) = toSingle a"
| "Math_fround v = v"

section \<open>The decode model: the vertex shader of sidefx-player.ts\<close>

text \<open>
  The vertex shader \<^verbatim>\<open>VAT_VERTEX_SHADER\<close> is a pure function of its uniforms and
  attributes. Its values are singles and its arithmetic is that of singles.
\<close>

type_synonym vec2 = "jsnum \<times> jsnum"
type_synonym vec3 = "jsnum \<times> jsnum \<times> jsnum"

fun v3_add :: "vec3 \<Rightarrow> vec3 \<Rightarrow> vec3" where
  "v3_add (a, b, c) (d, e, f) = (f32_add a d, f32_add b e, f32_add c f)"

fun v3_sub :: "vec3 \<Rightarrow> vec3 \<Rightarrow> vec3" where
  "v3_sub (a, b, c) (d, e, f) = (f32_sub a d, f32_sub b e, f32_sub c f)"

fun v3_mul :: "vec3 \<Rightarrow> vec3 \<Rightarrow> vec3" where
  "v3_mul (a, b, c) (d, e, f) = (f32_mul a d, f32_mul b e, f32_mul c f)"

text \<open>The componentwise order of two vectors.\<close>

fun v3_le :: "vec3 \<Rightarrow> vec3 \<Rightarrow> bool" where
  "v3_le (a, b, c) (d, e, f) = (js_le a d \<and> js_le b e \<and> js_le c f)"

text \<open>
  A vector whose three components satisfy a predicate, a finite value, and a value that
  is a single (one that the conversion to a single leaves as it is).
\<close>

fun v3_all :: "(jsnum \<Rightarrow> bool) \<Rightarrow> vec3 \<Rightarrow> bool" where
  "v3_all P (a, b, c) = (P a \<and> P b \<and> P c)"

fun isFinite :: "jsnum \<Rightarrow> bool" where
  "isFinite (Fin a) = True"
| "isFinite v = False"

definition isSingle :: "jsnum \<Rightarrow> bool" where
  "isSingle v = (Math_fround v = v)"

fun glsl_floor :: "jsnum \<Rightarrow> jsnum" where
  "glsl_floor (Fin a) = Fin (of_int \<lfloor>a\<rfloor>)"
| "glsl_floor v = v"

text \<open>GLSL \<^verbatim>\<open>mod(x, y)\<close> is \<^verbatim>\<open>x - y * floor(x / y)\<close>.\<close>

definition glsl_mod :: "jsnum \<Rightarrow> jsnum \<Rightarrow> jsnum" where
  "glsl_mod x y = f32_sub x (f32_mul y (glsl_floor (f32_div x y)))"

record vat_uniforms =
  u_vatTime :: jsnum
  u_numFrames :: jsnum
  u_fps :: jsnum
  u_posMin :: vec3
  u_posMax :: vec3
  u_useNormalTex :: jsnum
  u_isPacked :: jsnum
  u_debugMode :: jsnum
  u_flipV :: jsnum
  u_useOffset :: jsnum

text \<open>
  \<^verbatim>\<open>effectiveTime\<close>: with the INSTANCES define the per-instance attribute
  \<^verbatim>\<open>instanceTimeOffset\<close> is added to \<^verbatim>\<open>vatTime\<close>; \<open>None\<close> is the shader
  compiled without the define.
\<close>

definition effectiveTime :: "vat_uniforms \<Rightarrow> jsnum option \<Rightarrow> jsnum" where
  "effectiveTime u inst =
     (case inst of Some instanceTimeOffset \<Rightarrow> f32_add (u_vatTime u) instanceTimeOffset
      | None \<Rightarrow> u_vatTime u)"

text \<open>\<^verbatim>\<open>float frame = floor(mod(effectiveTime * fps, numFrames));\<close>\<close>

definition vat_frame :: "jsnum \<Rightarrow> jsnum \<Rightarrow> jsnum \<Rightarrow> jsnum" where
  "vat_frame effTime fps numFrames = glsl_floor (glsl_mod (f32_mul effTime fps) numFrames)"

text \<open>
  \<^verbatim>\<open>frameOffset = frame / numFrames; finalU = uv2.x; finalV = uv2.y + frameOffset;
  if (flipV > 0.5) finalV = 1.0 - finalV;\<close>
\<close>

definition vat_posUV :: "vec2 \<Rightarrow> jsnum \<Rightarrow> jsnum \<Rightarrow> jsnum \<Rightarrow> vec2" where
  "vat_posUV uv2 frame numFrames flipV =
     (let frameOffset = f32_div frame numFrames;
          finalU = fst uv2;
          finalV = f32_add (snd uv2) frameOffset;
          finalV = (if js_lt (Fin (1 / 2)) flipV then f32_sub (Fin 1) finalV else finalV)
      in (finalU, finalV))"

text \<open>
  \<^verbatim>\<open>if (isPacked > 0.5) texPos = posMin + (posMax - posMin) * posSample.xyz;
  else texPos = posSample.xyz;\<close>
\<close>

definition vat_texPos :: "jsnum \<Rightarrow> vec3 \<Rightarrow> vec3 \<Rightarrow> vec3 \<Rightarrow> vec3" where
  "vat_texPos isPacked posMin posMax posSample =
     (if js_lt (Fin (1 / 2)) isPacked
      then v3_add posMin (v3_mul (v3_sub posMax posMin) posSample)
      else posSample)"

text \<open>\<^verbatim>\<open>if (useOffset > 0.5) animPos = position + texPos; else animPos = texPos;\<close>\<close>

definition vat_animPos :: "jsnum \<Rightarrow> vec3 \<Rightarrow> vec3 \<Rightarrow> vec3" where
  "vat_animPos useOffset position texPos =
     (if js_lt (Fin (1 / 2)) useOffset then v3_add position texPos else texPos)"

text \<open>
  The decode part of \<^verbatim>\<open>main()\<close>: the position texture is a function from the
  sample coordinate to the sampled \<^verbatim>\<open>xyz\<close>.
\<close>

definition vat_decode ::
  "vat_uniforms \<Rightarrow> jsnum option \<Rightarrow> (vec2 \<Rightarrow> vec3) \<Rightarrow> vec3 \<Rightarrow> vec2 \<Rightarrow> vec3" where
  "vat_decode u inst positionTexture position uv2 =
     (let frame = vat_frame (effectiveTime u inst) (u_fps u) (u_numFrames u);
          posUV = vat_posUV uv2 frame (u_numFrames u) (u_flipV u);
          posSample = positionTexture posUV;
          texPos = vat_texPos (u_isPacked u) (u_posMin u) (u_posMax u) posSample
      in vat_animPos (u_useOffset u) position texPos)"

section \<open>The instance layout of applyInstancing\<close>

datatype js_error = RangeError

text \<open>
  \<^verbatim>\<open>new Float32Array(len)\<close>: the length goes through ToIndex, which truncates, maps
  NaN to 0 and throws a RangeError outside \<open>[0, 2\<^sup>5\<^sup>3 - 1]\<close>. The elements start at 0.
  A write to a typed array at an index beyond its length is dropped, which is what
  \<^term>\<open>list_update\<close> does, and the stored value is converted to a single.
\<close>

definition newFloat32Array :: "jsnum \<Rightarrow> jsnum list option" where
  "newFloat32Array len =
     (case len of
        Fin a \<Rightarrow> (if js_trunc a < 0 \<or> 2 ^ 53 - 1 < js_trunc a then None
                  else Some (replicate (nat \<lfloor>a\<rfloor>) (Fin 0)))
      | NaN \<Rightarrow> Some []
      | PInf \<Rightarrow> None
      | NInf \<Rightarrow> None)"

text \<open>
  Babylon's \<^verbatim>\<open>Matrix.Translation(x, y, z)\<close>: the identity with the translation in
  elements 12 to 14 of its 16 floats.
\<close>

definition Matrix_Translation :: "jsnum \<Rightarrow> jsnum \<Rightarrow> jsnum \<Rightarrow> jsnum list" where
  "Matrix_Translation x y z =
     [Fin 1, Fin 0, Fin 0, Fin 0,
      Fin 0, Fin 1, Fin 0, Fin 0,
      Fin 0, Fin 0, Fin 1, Fin 0,
      x, y, z, Fin 1]"

text \<open>
  Babylon's \<^verbatim>\<open>matrix.copyToArray(array, offset)\<close> writes the floats from \<open>offset\<close> on;
  the array is a \<^verbatim>\<open>Float32Array\<close>.
\<close>

fun copyToArray :: "jsnum list \<Rightarrow> jsnum list \<Rightarrow> nat \<Rightarrow> jsnum list" where
  "copyToArray [] array offset = array"
| "copyToArray (v # vs) array offset =
     copyToArray vs (array[offset := Math_fround v]) (Suc offset)"

text \<open>The body of the loop over the instances, on the two buffers.\<close>

definition instanceTimeOffset :: "jsnum \<Rightarrow> jsnum \<Rightarrow> nat \<Rightarrow> jsnum" where
  "instanceTimeOffset gridSize animDuration i =
     (let row = Math_floor (js_div (Fin (real i)) gridSize);
          col = js_rem (Fin (real i)) gridSize
      in js_mul (js_div (js_add row col) (js_sub (js_mul gridSize (Fin 2)) (Fin 2)))
           animDuration)"

definition instanceMatrix :: "jsnum \<Rightarrow> jsnum \<Rightarrow> jsnum \<Rightarrow> nat \<Rightarrow> jsnum list" where
  "instanceMatrix gridSize spacing gridOffset i =
     (let row = Math_floor (js_div (Fin (real i)) gridSize);
          col = js_rem (Fin (real i)) gridSize;
          x = js_sub (js_mul col spacing) gridOffset;
          z = js_sub (js_mul row spacing) gridOffset
      in Matrix_Translation x (Fin 0) z)"

definition instanceBody ::
  "jsnum \<Rightarrow> jsnum \<Rightarrow> jsnum \<Rightarrow> jsnum \<Rightarrow> nat \<Rightarrow> jsnum list \<times> jsnum list
   \<Rightarrow> jsnum list \<times> jsnum list" where
  "instanceBody gridSize spacing gridOffset animDuration i bufs =
     (case bufs of (matricesData, timeOffsets) \<Rightarrow>
        (copyToArray (instanceMatrix gridSize spacing gridOffset i) matricesData (i * 16),
         timeOffsets[i := Math_fround (instanceTimeOffset gridSize animDuration i)]))"

text \<open>\<^verbatim>\<open>for (let i = 0; i < instanceCount; i++)\<close>, for a finite \<open>instanceCount\<close>.\<close>

function instanceLoop ::
  "real \<Rightarrow> jsnum \<Rightarrow> jsnum \<Rightarrow> jsnum \<Rightarrow> jsnum \<Rightarrow> nat \<Rightarrow> jsnum list \<times> jsnum list
   \<Rightarrow> jsnum list \<times> jsnum list" where
  "instanceLoop instanceCount gridSize spacing gridOffset animDuration i bufs =
     (if real i < instanceCount
      then instanceLoop instanceCount gridSize spacing gridOffset animDuration (Suc i)
             (instanceBody gridSize spacing gridOffset animDuration i bufs)
      else bufs)"
  by pat_completeness auto
termination
proof (relation "measure (\<lambda>(c, gs, sp, go, ad, i, bufs). nat \<lceil>c\<rceil> - i)")
  show "wf (measure (\<lambda>(c, gs, sp, go, ad, i, bufs). nat \<lceil>c\<rceil> - i))" by simp
next
  fix instanceCount :: real and gridSize spacing gridOffset animDuration :: jsnum
    and i :: nat and bufs :: "jsnum list \<times> jsnum list"
  assume "real i < instanceCount"
  then have "int i < \<lceil>instanceCount\<rceil>" by linarith
  then have "nat \<lceil>instanceCount\<rceil> - Suc i < nat \<lceil>instanceCount\<rceil> - i" by linarith
  then show "((instanceCount, gridSize, spacing, gridOffset, animDuration, Suc i,
               instanceBody gridSize spacing gridOffset animDuration i bufs),
              (instanceCount, gridSize, spacing, gridOffset, animDuration, i, bufs))
             \<in> measure (\<lambda>(c, gs, sp, go, ad, i, bufs). nat \<lceil>c\<rceil> - i)"
    by simp
qed

text \<open>
  \<^verbatim>\<open>Math.max(1, Math.min(10000, Number(instanceCountInput.value) || 100))\<close>, on the
  value \<^verbatim>\<open>Number(instanceCountInput.value)\<close>.
\<close>

definition instanceCountOf :: "jsnum \<Rightarrow> jsnum" where
  "instanceCountOf countValue =
     Math_max (Fin 1) (Math_min (Fin 10000) (js_or countValue (Fin 100)))"

text \<open>\<^verbatim>\<open>const gridOffset = ((gridSize - 1) * spacing) / 2;\<close>\<close>

definition gridOffsetOf :: "jsnum \<Rightarrow> jsnum \<Rightarrow> jsnum" where
  "gridOffsetOf gridSize spacing = js_div (js_mul (js_sub gridSize (Fin 1)) spacing) (Fin 2)"

record instance_layout =
  l_instanceCount :: jsnum
  l_gridSize :: jsnum
  l_spacing :: jsnum
  l_animDuration :: jsnum
  l_matricesData :: "jsnum list"
  l_timeOffsets :: "jsnum list"

text \<open>
  The layout computed by \<^verbatim>\<open>applyInstancing(true)\<close> (the code from \<^verbatim>\<open>const numFrames\<close>
  to the end of the loop). Its arguments are the values
  \<^verbatim>\<open>Number(instanceCountInput.value)\<close>, \<^verbatim>\<open>Number(instanceSpacingInput.value)\<close>,
  \<^verbatim>\<open>Number(numFramesInput.value)\<close> and \<^verbatim>\<open>Number(fpsInput.value)\<close>. The loop is not
  reached with an infinite \<open>instanceCount\<close>, for which the allocation throws; with NaN
  its guard is false at once.
\<close>

definition instanceLayout ::
  "jsnum \<Rightarrow> jsnum \<Rightarrow> jsnum \<Rightarrow> jsnum \<Rightarrow> js_error + instance_layout" where
  "instanceLayout countValue spacingValue numFramesValue fpsValue =
     (let numFrames = js_or numFramesValue (Fin 24);
          fps = js_or fpsValue (Fin 24);
          instanceCount = instanceCountOf countValue;
          gridSize = Math_ceil (Math_sqrt instanceCount);
          spacing = js_or spacingValue (Fin 3);
          animDuration = js_div numFrames fps
      in case newFloat32Array (js_mul instanceCount (Fin 16)) of
           None \<Rightarrow> Inl RangeError
         | Some matricesData \<Rightarrow>
             (case newFloat32Array instanceCount of
                None \<Rightarrow> Inl RangeError
              | Some timeOffsets \<Rightarrow>
                  (let gridOffset = gridOffsetOf gridSize spacing;
                       bufs = (case instanceCount of
                                 Fin c \<Rightarrow> instanceLoop c gridSize spacing gridOffset
                                            animDuration 0 (matricesData, timeOffsets)
                               | PInf \<Rightarrow> (matricesData, timeOffsets)
                               | NInf \<Rightarrow> (matricesData, timeOffsets)
                               | NaN \<Rightarrow> (matricesData, timeOffsets))
                   in Inr \<lparr> l_instanceCount = instanceCount, l_gridSize = gridSize,
                            l_spacing = spacing, l_animDuration = animDuration,
                            l_matricesData = fst bufs, l_timeOffsets = snd bufs \<rparr>)))"

text \<open>
  The instance records the two buffers hold: instance \<open>i\<close> has the 16 floats from
  \<open>16 * i\<close> as its transform and element \<open>i\<close> as its time offset.
\<close>

definition recordTransform :: "instance_layout \<Rightarrow> nat \<Rightarrow> jsnum list" where
  "recordTransform l i = take 16 (drop (16 * i) (l_matricesData l))"

definition recordTimeOffset :: "instance_layout \<Rightarrow> nat \<Rightarrow> jsnum option" where
  "recordTimeOffset l i =
     (if i < length (l_timeOffsets l) then Some (l_timeOffsets l ! i) else None)"

section \<open>The metadata parser: parseUnityMaterial\<close>

text \<open>
  The text of the metadata file is a list of characters, each standing for one UTF-16
  code unit below 256. \<open>isSpace\<close> is the class \<^verbatim>\<open>\s\<close> of a regular expression on such
  code units (tab, line feed, vertical tab, form feed, carriage return, space and the
  no-break space), which is also the white space \<^verbatim>\<open>parseFloat\<close> skips.
\<close>

definition isSpace :: "char \<Rightarrow> bool" where
  "isSpace c = (c \<in> set [CHR 0x09, CHR 0x0A, CHR 0x0B, CHR 0x0C, CHR 0x0D, CHR 0x20, CHR 0xA0])"

definition isDigit :: "char \<Rightarrow> bool" where
  "isDigit c = (c \<in> set ''0123456789'')"

text \<open>
  The class \<^verbatim>\<open>[\d.\-e]\<close> under the flag \<^verbatim>\<open>i\<close>: a digit, a dot, a minus sign, or the
  letter e in either case. A plus sign is not in the class.
\<close>

definition isNumChar :: "char \<Rightarrow> bool" where
  "isNumChar c = (isDigit c \<or> c \<in> set ''.-eE'')"

text \<open>
  Case folding of the flag \<^verbatim>\<open>i\<close> (without the flag \<^verbatim>\<open>u\<close>): a character is compared
  through its upper case, and a character outside ASCII never folds to an ASCII one.
  The names of the pattern are ASCII, so folding the ASCII letters decides every
  comparison with them.
\<close>

definition toUpper :: "char \<Rightarrow> char" where
  "toUpper c =
     (case map_of (zip ''abcdefghijklmnopqrstuvwxyz'' ''ABCDEFGHIJKLMNOPQRSTUVWXYZ'') c of
        Some u \<Rightarrow> u
      | None \<Rightarrow> c)"

text \<open>The literal \<open>name\<close> of the pattern at the front of the text; the rest is returned.\<close>

fun matchName :: "string \<Rightarrow> string \<Rightarrow> string option" where
  "matchName [] s = Some s"
| "matchName (p # ps) [] = None"
| "matchName (p # ps) (c # cs) = (if toUpper c = toUpper p then matchName ps cs else None)"

text \<open>
  A match of \<^verbatim>\<open>-\s*NAME:\s*([\d.\-e]+)\<close> that starts at the front of the text; the
  result is the captured group. The names searched for start with an underscore, and
  no character of the class is white space, so each greedy \<^verbatim>\<open>\s*\<close> takes all the white
  space there is and no backtracking changes the outcome.
\<close>

definition matchAt :: "string \<Rightarrow> string \<Rightarrow> string option" where
  "matchAt name s =
     (case s of
        [] \<Rightarrow> None
      | c # r \<Rightarrow>
          if c \<noteq> CHR ''-'' then None
          else (case matchName name (dropWhile isSpace r) of
                  None \<Rightarrow> None
                | Some [] \<Rightarrow> None
                | Some (c2 # r2) \<Rightarrow>
                    if c2 \<noteq> CHR '':'' then None
                    else (let captured = takeWhile isNumChar (dropWhile isSpace r2)
                          in if captured = [] then None else Some captured)))"

text \<open>\<^verbatim>\<open>text.match(regex)\<close> without the flag \<^verbatim>\<open>g\<close>: the leftmost match.\<close>

fun regexMatch :: "string \<Rightarrow> string \<Rightarrow> string option" where
  "regexMatch name [] = None"
| "regexMatch name (c # cs) =
     (case matchAt name (c # cs) of
        Some captured \<Rightarrow> Some captured
      | None \<Rightarrow> regexMatch name cs)"

text \<open>
  \<^verbatim>\<open>parseFloat\<close>: skip leading white space, then read the longest prefix that is a
  decimal literal (a sign, \<^verbatim>\<open>Infinity\<close> or digits with an optional fraction, and an
  exponent when digits follow the letter e); NaN when there is none. The value is the
  number the literal denotes, rounded to a double.
\<close>

definition digitVal :: "char \<Rightarrow> nat" where
  "digitVal c = of_char c - 48"

definition digitsVal :: "string \<Rightarrow> nat" where
  "digitsVal ds = foldl (\<lambda>a c. 10 * a + digitVal c) 0 ds"

definition readSign :: "string \<Rightarrow> bool \<times> string" where
  "readSign s =
     (case s of
        [] \<Rightarrow> (False, s)
      | c # r \<Rightarrow> if c = CHR ''-'' then (True, r) else if c = CHR ''+'' then (False, r)
                 else (False, s))"

definition exponentPart :: "string \<Rightarrow> int" where
  "exponentPart s =
     (case s of
        [] \<Rightarrow> 0
      | c # r \<Rightarrow>
          if c = CHR ''e'' \<or> c = CHR ''E''
          then (case readSign r of (neg, r') \<Rightarrow>
                  (let ds = takeWhile isDigit r'
                   in if ds = [] then 0
                      else if neg then - int (digitsVal ds) else int (digitsVal ds)))
          else 0)"

definition scaleByExponent :: "real \<Rightarrow> int \<Rightarrow> real" where
  "scaleByExponent m e = (if 0 \<le> e then m * 10 ^ nat e else m / 10 ^ nat (- e))"

definition parseFloat :: "string \<Rightarrow> jsnum" where
  "parseFloat input =
     (case readSign (dropWhile isSpace input) of (neg, s) \<Rightarrow>
        if take 8 s = ''Infinity'' then (if neg then NInf else PInf)
        else (let intDigits = takeWhile isDigit s;
                  r1 = dropWhile isDigit s;
                  fracDigits = (case r1 of [] \<Rightarrow> []
                                | c # r \<Rightarrow> if c = CHR ''.'' then takeWhile isDigit r else []);
                  r2 = (case r1 of [] \<Rightarrow> []
                        | c # r \<Rightarrow> if c = CHR ''.'' then dropWhile isDigit r else r1)
              in if intDigits = [] \<and> fracDigits = [] then NaN
                 else (let m = real (digitsVal intDigits)
                               + real (digitsVal fracDigits) / 10 ^ length fracDigits;
                           v = scaleByExponent m (exponentPart r2)
                       in toDouble (if neg then - v else v))))"

text \<open>
  \<^verbatim>\<open>extractFloat\<close>: \<^verbatim>\<open>match ? parseFloat(match[1]) : undefined\<close>.
\<close>

definition extractFloat :: "string \<Rightarrow> string \<Rightarrow> jsnum option" where
  "extractFloat text name = map_option parseFloat (regexMatch name text)"

datatype vat_method = Soft | Rigid | Fluid

text \<open>\<^verbatim>\<open>Partial<VatMetadata>\<close>: every field may be absent.\<close>

record vat_metadata =
  m_numFrames :: "jsnum option"
  m_fps :: "jsnum option"
  m_posMin :: "(jsnum \<times> jsnum \<times> jsnum) option"
  m_posMax :: "(jsnum \<times> jsnum \<times> jsnum) option"
  m_normalMin :: "(jsnum \<times> jsnum \<times> jsnum) option"
  m_normalMax :: "(jsnum \<times> jsnum \<times> jsnum) option"
  m_method :: "vat_method option"
  m_packed :: "bool option"
  m_width :: "jsnum option"
  m_height :: "jsnum option"

definition emptyMetadata :: vat_metadata where
  "emptyMetadata =
     \<lparr> m_numFrames = None, m_fps = None, m_posMin = None, m_posMax = None, m_normalMin = None,
       m_normalMax = None, m_method = None, m_packed = None, m_width = None, m_height = None \<rparr>"

text \<open>The three components of a bound, present only when all three were extracted.\<close>

definition boundTriple ::
  "jsnum option \<Rightarrow> jsnum option \<Rightarrow> jsnum option \<Rightarrow> (jsnum \<times> jsnum \<times> jsnum) option" where
  "boundTriple cx cy cz =
     (case (cx, cy, cz) of
        (Some x, Some y, Some z) \<Rightarrow> Some (x, y, z)
      | _ \<Rightarrow> None)"

definition parseUnityMaterial :: "string \<Rightarrow> vat_metadata" where
  "parseUnityMaterial text =
     (let boundMinX = extractFloat text ''_boundMinX'';
          boundMinY = extractFloat text ''_boundMinY'';
          boundMinZ = extractFloat text ''_boundMinZ'';
          boundMaxX = extractFloat text ''_boundMaxX'';
          boundMaxY = extractFloat text ''_boundMaxY'';
          boundMaxZ = extractFloat text ''_boundMaxZ'';
          frameCount = extractFloat text ''_frameCount'';
          houdiniFPS = extractFloat text ''_houdiniFPS'';
          meta = emptyMetadata;
          meta = (case boundTriple boundMinX boundMinY boundMinZ of
                    Some b \<Rightarrow> meta\<lparr>m_posMin := Some b\<rparr> | None \<Rightarrow> meta);
          meta = (case boundTriple boundMaxX boundMaxY boundMaxZ of
                    Some b \<Rightarrow> meta\<lparr>m_posMax := Some b\<rparr> | None \<Rightarrow> meta);
          meta = (case frameCount of
                    Some n \<Rightarrow> meta\<lparr>m_numFrames := Some (Math_round n)\<rparr> | None \<Rightarrow> meta);
          meta = (case houdiniFPS of
                    Some f \<Rightarrow> meta\<lparr>m_fps := Some f\<rparr> | None \<Rightarrow> meta)
      in meta)"

section \<open>The player: state, applyVat, applyInstancing and the render loop\<close>

text \<open>
  The module-level variables of sidefx-player.ts, the controls of the page and the
  part of the Babylon scene the player touches form one state record. A control holds
  text; the state keeps the number \<^verbatim>\<open>Number(control.value)\<close> the code reads from it.
  Materials are objects shared between the module variables and the meshes, so they
  live in a store indexed by an identifier and are referred to by it.
\<close>

record texture =
  tex_id :: nat
  tex_width :: nat
  tex_height :: nat

text \<open>
  A material that came with the mesh: the code only asks whether it has a field
  \<^verbatim>\<open>diffuseTexture\<close> or \<^verbatim>\<open>albedoTexture\<close> and reads it (the field may hold null).
\<close>

record scene_material =
  diffuseTextureField :: "texture option option"
  albedoTextureField :: "texture option option"

datatype material_ref = SceneMaterial scene_material | ShaderMaterialRef nat

text \<open>
  The uniforms, textures and defines set on a \<^verbatim>\<open>ShaderMaterial\<close> of the player. The
  material keeps the numbers it was given by \<^verbatim>\<open>setFloat\<close> and \<^verbatim>\<open>setVector3\<close>.
\<close>

record shader_material =
  sm_instances :: bool
  sm_positionTexture :: texture
  sm_vatTime :: jsnum
  sm_numFrames :: jsnum
  sm_fps :: jsnum
  sm_posMin :: "jsnum \<times> jsnum \<times> jsnum"
  sm_posMax :: "jsnum \<times> jsnum \<times> jsnum"
  sm_texSize :: "nat \<times> nat"
  sm_isPacked :: jsnum
  sm_flipV :: jsnum
  sm_useOffset :: jsnum
  sm_debugMode :: jsnum
  sm_normalTexture :: "texture option"
  sm_useNormalTex :: jsnum
  sm_diffuseTexture :: "texture option"
  sm_useDiffuseTex :: jsnum

record mesh =
  uniqueId :: nat
  hasUV2 :: bool
  material :: "material_ref option"
  skeletonAtRest :: "bool option"
  thinInstanceCount :: jsnum
  thinInstanceMatrix :: "jsnum list"
  thinInstanceTimeOffset :: "jsnum list"

datatype status =
    StatusText string
  | LoadPositionTextureFirst
  | SelectMeshFirst
  | MeshHasNoUV2
  | VatApplied nat jsnum jsnum
  | FailedToApplyVat js_error
  | InstancingDisabled
  | InstancingEnabled jsnum jsnum jsnum jsnum
  | StatusPlaying
  | StatusPaused
  | StatusReset

record player =
  positionTexture :: "texture option"
  normalTexture :: "texture option"
  vatMaterial :: "nat option"
  vatMaterialInstanced :: "nat option"
  originalMaterials :: "nat \<rightharpoonup> material_ref option"
  vatTime :: jsnum
  isPlaying :: bool
  isPacked :: bool
  currentVatMesh :: "nat option"
  isInstancedMode :: bool
  materials :: "nat \<rightharpoonup> shader_material"
  nextMaterialId :: nat
  meshes :: "mesh list"
  animationsRunning :: bool
  statusEl :: status
  meshSelectValue :: jsnum
  numFramesValue :: jsnum
  fpsValue :: jsnum
  speedValue :: jsnum
  posMinValue :: "jsnum \<times> jsnum \<times> jsnum"
  posMaxValue :: "jsnum \<times> jsnum \<times> jsnum"
  flipVChecked :: bool
  useOffsetChecked :: bool
  debugModeValue :: jsnum
  instancedModeChecked :: bool
  instanceCountValue :: jsnum
  instanceSpacingValue :: jsnum

definition setStatus :: "status \<Rightarrow> player \<Rightarrow> player" where
  "setStatus msg s = s\<lparr>statusEl := msg\<rparr>"

text \<open>\<^verbatim>\<open>checked ? 1.0 : 0.0\<close>\<close>

definition flag :: "bool \<Rightarrow> jsnum" where
  "flag b = (if b then Fin 1 else Fin 0)"

text \<open>\<^verbatim>\<open>scene.meshes.find((m) => m.uniqueId === meshId)\<close>\<close>

definition findMesh :: "jsnum \<Rightarrow> mesh list \<Rightarrow> mesh option" where
  "findMesh meshId ms = find (\<lambda>m. Fin (real (uniqueId m)) = meshId) ms"

text \<open>An assignment to a field of the mesh object with the given identifier.\<close>

definition updateMesh :: "nat \<Rightarrow> (mesh \<Rightarrow> mesh) \<Rightarrow> player \<Rightarrow> player" where
  "updateMesh mid f s = s\<lparr>meshes := map (\<lambda>m. if uniqueId m = mid then f m else m) (meshes s)\<rparr>"

text \<open>\<^verbatim>\<open>material?.dispose()\<close>: the material leaves the store.\<close>

definition disposeMaterial :: "nat option \<Rightarrow> player \<Rightarrow> player" where
  "disposeMaterial r s =
     (case r of None \<Rightarrow> s | Some i \<Rightarrow> s\<lparr>materials := (materials s)(i := None)\<rparr>)"

text \<open>\<^verbatim>\<open>if (material) material.setFloat("vatTime", t)\<close>\<close>

definition setVatTime :: "nat option \<Rightarrow> jsnum \<Rightarrow> player \<Rightarrow> player" where
  "setVatTime r t s =
     (case r of
        None \<Rightarrow> s
      | Some i \<Rightarrow>
          (case materials s i of
             None \<Rightarrow> s
           | Some m \<Rightarrow> s\<lparr>materials := (materials s)(i \<mapsto> m\<lparr>sm_vatTime := t\<rparr>)\<rparr>))"

text \<open>
  The callback of \<^verbatim>\<open>engine.runRenderLoop\<close>; \<open>deltaTime\<close> is \<^verbatim>\<open>engine.getDeltaTime()\<close>,
  in milliseconds.
\<close>

definition renderTick :: "real \<Rightarrow> player \<Rightarrow> player" where
  "renderTick deltaTime s =
     (if isPlaying s
      then (let speed = js_or (speedValue s) (Fin 1);
                t = js_add (vatTime s) (js_mul (js_div (Fin deltaTime) (Fin 1000)) speed);
                s = s\<lparr>vatTime := t\<rparr>;
                s = setVatTime (vatMaterial s) t s
            in setVatTime (vatMaterialInstanced s) t s)
      else s)"

definition playClick :: "player \<Rightarrow> player" where
  "playClick s = setStatus StatusPlaying (s\<lparr>isPlaying := True\<rparr>)"

definition pauseClick :: "player \<Rightarrow> player" where
  "pauseClick s = setStatus StatusPaused (s\<lparr>isPlaying := False\<rparr>)"

definition resetClick :: "player \<Rightarrow> player" where
  "resetClick s =
     (let s = s\<lparr>vatTime := Fin 0\<rparr>;
          s = setVatTime (vatMaterial s) (Fin 0) s;
          s = setVatTime (vatMaterialInstanced s) (Fin 0) s
      in setStatus StatusReset s)"

text \<open>The uniforms and textures \<^verbatim>\<open>applyInstancing\<close> sets on the instanced material.\<close>

definition instancedShaderMaterial :: "texture \<Rightarrow> player \<Rightarrow> shader_material" where
  "instancedShaderMaterial posTex s =
     (let numFrames = js_or (numFramesValue s) (Fin 24);
          fps = js_or (fpsValue s) (Fin 24)
      in \<lparr> sm_instances = True, sm_positionTexture = posTex,
           sm_vatTime = vatTime s, sm_numFrames = numFrames, sm_fps = fps,
           sm_posMin = posMinValue s, sm_posMax = posMaxValue s,
           sm_texSize = (tex_width posTex, tex_height posTex),
           sm_isPacked = flag (isPacked s),
           sm_flipV = flag (flipVChecked s),
           sm_useOffset = flag (useOffsetChecked s),
           sm_debugMode = debugModeValue s,
           sm_normalTexture = normalTexture s,
           sm_useNormalTex = flag (normalTexture s \<noteq> None),
           sm_diffuseTexture = None, sm_useDiffuseTex = Fin 0 \<rparr>)"

text \<open>
  The uniforms the shader reads when the material is bound: the engine uploads each
  number of the material as a \<^verbatim>\<open>float\<close>, converting it to a single.
\<close>

definition uploadVec3 :: "jsnum \<times> jsnum \<times> jsnum \<Rightarrow> vec3" where
  "uploadVec3 v = (case v of (x, y, z) \<Rightarrow> (Math_fround x, Math_fround y, Math_fround z))"

definition shaderUniforms :: "shader_material \<Rightarrow> vat_uniforms" where
  "shaderUniforms m =
     \<lparr> u_vatTime = Math_fround (sm_vatTime m),
       u_numFrames = Math_fround (sm_numFrames m),
       u_fps = Math_fround (sm_fps m),
       u_posMin = uploadVec3 (sm_posMin m),
       u_posMax = uploadVec3 (sm_posMax m),
       u_useNormalTex = Math_fround (sm_useNormalTex m),
       u_isPacked = Math_fround (sm_isPacked m),
       u_debugMode = Math_fround (sm_debugMode m),
       u_flipV = Math_fround (sm_flipV m),
       u_useOffset = Math_fround (sm_useOffset m) \<rparr>"

text \<open>
  \<^verbatim>\<open>applyInstancing(enable)\<close>. The result is \<open>Inl\<close> when the function throws, with the
  state the exception leaves behind. \<^verbatim>\<open>thinInstanceSetBuffer("matrix", data, 16)\<close> of
  the engine also sets the number of instances to the length of the data divided by 16.
\<close>

definition applyInstancing :: "bool \<Rightarrow> player \<Rightarrow> (js_error \<times> player) + player" where
  "applyInstancing enable s =
     (case (currentVatMesh s, vatMaterial s, positionTexture s) of
        (Some meshId, Some vm, Some posTex) \<Rightarrow>
          (let s = s\<lparr>isInstancedMode := enable\<rparr>
           in if \<not> enable
              then (let s = updateMesh meshId
                              (\<lambda>m. m\<lparr>thinInstanceCount := Fin 0,
                                      material := Some (ShaderMaterialRef vm)\<rparr>) s;
                        s = disposeMaterial (vatMaterialInstanced s) s;
                        s = s\<lparr>vatMaterialInstanced := None\<rparr>
                    in Inr (setStatus InstancingDisabled s))
              else (let s = disposeMaterial (vatMaterialInstanced s) s;
                        mid = nextMaterialId s;
                        mat = instancedShaderMaterial posTex s;
                        s = s\<lparr>vatMaterialInstanced := Some mid, nextMaterialId := Suc mid,
                              materials := (materials s)(mid \<mapsto> mat)\<rparr>
                    in case instanceLayout (instanceCountValue s) (instanceSpacingValue s)
                              (numFramesValue s) (fpsValue s) of
                         Inl e \<Rightarrow> Inl (e, s)
                       | Inr l \<Rightarrow>
                           (let s = updateMesh meshId
                                      (\<lambda>m. m\<lparr>thinInstanceMatrix := l_matricesData l,
                                              thinInstanceCount :=
                                                js_div (Fin (real (length (l_matricesData l))))
                                                  (Fin 16),
                                              thinInstanceTimeOffset := l_timeOffsets l,
                                              material := Some (ShaderMaterialRef mid)\<rparr>) s
                            in Inr (setStatus
                                      (InstancingEnabled (l_instanceCount l) (l_gridSize l)
                                         (l_spacing l) (l_animDuration l)) s))))
      | _ \<Rightarrow> Inr s)"

text \<open>
  The diffuse texture taken over from the original material:
  \<^verbatim>\<open>"diffuseTexture" in origMat\<close> first, \<^verbatim>\<open>"albedoTexture" in origMat\<close> second.
\<close>

definition diffuseTexOf :: "material_ref option \<Rightarrow> texture option" where
  "diffuseTexOf origMat =
     (case origMat of
        Some (SceneMaterial m) \<Rightarrow>
          (case diffuseTextureField m of
             Some t \<Rightarrow> t
           | None \<Rightarrow> (case albedoTextureField m of Some t \<Rightarrow> t | None \<Rightarrow> None))
      | _ \<Rightarrow> None)"

text \<open>
  The first steps inside \<^verbatim>\<open>try\<close>: stop the animations and put the skeleton of the
  mesh, if it has one, back to rest.
\<close>

definition stopAnimations :: "nat \<Rightarrow> player \<Rightarrow> player" where
  "stopAnimations meshId s =
     updateMesh meshId
       (\<lambda>m. m\<lparr>skeletonAtRest := map_option (\<lambda>_. True) (skeletonAtRest m)\<rparr>)
       (s\<lparr>animationsRunning := False\<rparr>)"

text \<open>
  \<^verbatim>\<open>if (!originalMaterials.has(mesh.uniqueId)) originalMaterials.set(mesh.uniqueId,
  mesh.material)\<close>
\<close>

definition storeOriginalMaterial :: "mesh \<Rightarrow> player \<Rightarrow> player" where
  "storeOriginalMaterial mesh s =
     (if originalMaterials s (uniqueId mesh) = None
      then s\<lparr>originalMaterials := (originalMaterials s)(uniqueId mesh \<mapsto> material mesh)\<rparr>
      else s)"

definition originalDiffuseTex :: "nat \<Rightarrow> player \<Rightarrow> texture option" where
  "originalDiffuseTex meshId s =
     (case originalMaterials s meshId of
        Some origMat \<Rightarrow> diffuseTexOf origMat
      | None \<Rightarrow> None)"

text \<open>The uniforms and textures \<^verbatim>\<open>applyVat\<close> sets on the material it creates.\<close>

definition vatShaderMaterial :: "texture \<Rightarrow> texture option \<Rightarrow> player \<Rightarrow> shader_material" where
  "vatShaderMaterial posTex diffuseTex s =
     (let numFrames = js_or (numFramesValue s) (Fin 24);
          fps = js_or (fpsValue s) (Fin 24)
      in \<lparr> sm_instances = False, sm_positionTexture = posTex,
           sm_vatTime = Fin 0, sm_numFrames = numFrames, sm_fps = fps,
           sm_posMin = posMinValue s, sm_posMax = posMaxValue s,
           sm_texSize = (tex_width posTex, tex_height posTex),
           sm_isPacked = flag (isPacked s),
           sm_flipV = flag (flipVChecked s),
           sm_useOffset = flag (useOffsetChecked s),
           sm_debugMode = debugModeValue s,
           sm_normalTexture = normalTexture s,
           sm_useNormalTex = flag (normalTexture s \<noteq> None),
           sm_diffuseTexture = diffuseTex,
           sm_useDiffuseTex = flag (diffuseTex \<noteq> None) \<rparr>)"

text \<open>
  \<^verbatim>\<open>applyVat()\<close>. The three checks come first and return after setting the status;
  the rest runs inside \<^verbatim>\<open>try\<close>, whose \<^verbatim>\<open>catch\<close> turns an exception into the status
  \<open>FailedToApplyVat\<close>. The calls into the engine are taken not to throw.
\<close>

definition applyVat :: "player \<Rightarrow> player" where
  "applyVat s =
     (case positionTexture s of
        None \<Rightarrow> setStatus LoadPositionTextureFirst s
      | Some posTex \<Rightarrow>
          (case findMesh (meshSelectValue s) (meshes s) of
             None \<Rightarrow> setStatus SelectMeshFirst s
           | Some mesh \<Rightarrow>
               if \<not> hasUV2 mesh then setStatus MeshHasNoUV2 s
               else (let meshId = uniqueId mesh;
                         s = stopAnimations meshId s;
                         s = storeOriginalMaterial mesh s;
                         diffuseTex = originalDiffuseTex meshId s;
                         mid = nextMaterialId s;
                         s = s\<lparr>vatMaterial := Some mid, nextMaterialId := Suc mid,
                               materials :=
                                 (materials s)(mid \<mapsto> vatShaderMaterial posTex diffuseTex s)\<rparr>;
                         s = updateMesh meshId (\<lambda>m. m\<lparr>material := Some (ShaderMaterialRef mid)\<rparr>) s;
                         s = s\<lparr>vatTime := Fin 0, isPlaying := False, currentVatMesh := Some meshId\<rparr>
                     in case (if instancedModeChecked s then applyInstancing True s else Inr s) of
                          Inl (e, s') \<Rightarrow> setStatus (FailedToApplyVat e) s'
                        | Inr s' \<Rightarrow>
                            setStatus
                              (VatApplied meshId (js_or (numFramesValue s) (Fin 24))
                                 (js_or (fpsValue s) (Fin 24))) s')))"

text \<open>
  The state when the module has been loaded: the initial values of the module-level
  variables, an empty scene, and every control of the page empty or unchecked
  (\<^verbatim>\<open>Number("")\<close> is 0).
\<close>

definition initialPlayer :: player where
  "initialPlayer =
     \<lparr> positionTexture = None, normalTexture = None, vatMaterial = None,
       vatMaterialInstanced = None, originalMaterials = Map.empty, vatTime = Fin 0,
       isPlaying = False, isPacked = True, currentVatMesh = None, isInstancedMode = False,
       materials = Map.empty, nextMaterialId = 0, meshes = [], animationsRunning = False,
       statusEl = StatusText [], meshSelectValue = Fin 0, numFramesValue = Fin 0,
       fpsValue = Fin 0, speedValue = Fin 0, posMinValue = (Fin 0, Fin 0, Fin 0),
       posMaxValue = (Fin 0, Fin 0, Fin 0), flipVChecked = False, useOffsetChecked = False,
       debugModeValue = Fin 0, instancedModeChecked = False, instanceCountValue = Fin 0,
       instanceSpacingValue = Fin 0 \<rparr>"

text \<open>
  A scene for the examples: one mesh with the identifier 7, with or without the UV2
  channel, selected in the mesh list, and a 64 by 64 position texture loaded.
\<close>

definition exampleMesh :: "bool \<Rightarrow> mesh" where
  "exampleMesh uv2 =
     \<lparr> uniqueId = 7, hasUV2 = uv2, material = None, skeletonAtRest = None,
       thinInstanceCount = Fin 0, thinInstanceMatrix = [], thinInstanceTimeOffset = [] \<rparr>"

definition examplePlayer :: "bool \<Rightarrow> player" where
  "examplePlayer uv2 =
     initialPlayer\<lparr> positionTexture := Some \<lparr> tex_id = 0, tex_width = 64, tex_height = 64 \<rparr>,
                    meshes := [exampleMesh uv2], meshSelectValue := Fin 7 \<rparr>"

text \<open>
  Material identifiers are handed out in increasing order, so the instanced material a
  state refers to was created before the next identifier.
\<close>

definition instancedMaterialAllocated :: "player \<Rightarrow> bool" where
  "instancedMaterialAllocated s =
     (case vatMaterialInstanced s of None \<Rightarrow> True | Some i \<Rightarrow> i < nextMaterialId s)"

section \<open>Numbers and example files of the metadata format\<close>

text \<open>The eight field names \<^verbatim>\<open>parseUnityMaterial\<close> extracts.\<close>

definition vendorFields :: "string list" where
  "vendorFields =
     [''_boundMinX'', ''_boundMinY'', ''_boundMinZ'', ''_boundMaxX'', ''_boundMaxY'',
      ''_boundMaxZ'', ''_frameCount'', ''_houdiniFPS'']"

text \<open>
  The numbers of the metadata format as the specification words them: an optional
  minus sign, digits, an optional decimal point with digits, and an optional exponent
  (the letter e in either case, an optional minus sign, digits). \<open>numberText\<close> is the
  text of such a number and \<open>numberValue\<close> the real number it denotes.
\<close>

definition numberText :: "bool \<Rightarrow> string \<Rightarrow> string \<Rightarrow> char \<Rightarrow> bool \<Rightarrow> string \<Rightarrow> string" where
  "numberText neg ip fp ec eneg ed =
     (if neg then ''-'' else []) @ ip @ (if fp = [] then [] else CHR ''.'' # fp)
     @ (if ed = [] then [] else ec # (if eneg then ''-'' else []) @ ed)"

definition numberValue :: "bool \<Rightarrow> string \<Rightarrow> string \<Rightarrow> bool \<Rightarrow> string \<Rightarrow> real" where
  "numberValue neg ip fp eneg ed =
     (let m = real (digitsVal ip) + real (digitsVal fp) / 10 ^ length fp;
          v = (if eneg then m / 10 ^ digitsVal ed else m * 10 ^ digitsVal ed)
      in if neg then - v else v)"

text \<open>
  Two metadata files for the examples, in the shape of a Unity material written by the
  exporter; the second lacks the line of \<^verbatim>\<open>_boundMaxZ\<close>.
\<close>

definition materialText :: "string list \<Rightarrow> string" where
  "materialText ls = concat (map (\<lambda>l. l @ [CHR 0x0A]) ls)"

definition exampleMaterial :: string where
  "exampleMaterial = materialText
     [''%YAML 1.1'', ''Material:'', ''  m_Floats:'',
      ''  - _boundMaxX: 1.5'', ''  - _boundMaxY: 2'', ''  - _boundMaxZ: 0.25'',
      ''  - _boundMinX: -1.5'', ''  - _boundMinY: 0'', ''  - _boundMinZ: -2.5e-1'',
      ''  - _frameCount: 47.5'', ''  - _houdiniFPS: 24.0'']"

definition exampleMaterialNoMaxZ :: string where
  "exampleMaterialNoMaxZ = materialText
     [''%YAML 1.1'', ''Material:'', ''  m_Floats:'',
      ''  - _boundMaxX: 1.5'', ''  - _boundMaxY: 2'',
      ''  - _boundMinX: -1.5'', ''  - _boundMinY: 0'', ''  - _boundMinZ: -2.5e-1'',
      ''  - _frameCount: 47.5'', ''  - _houdiniFPS: 24.0'']"

section \<open>Properties of the rounding\<close>

lemma rne_of_int [simp]: "rne (of_int n) = n"
  by (simp add: rne_def)

lemma rne_bounds: "of_int (rne a) \<le> a + 1 / 2" "a - 1 / 2 \<le> of_int (rne a)"
  by (auto simp add: rne_def Let_def) linarith+

lemma rne_floor_le: "\<lfloor>a\<rfloor> \<le> rne a" and rne_le_ceiling: "rne a \<le> \<lceil>a\<rceil>"
proof -
  show "\<lfloor>a\<rfloor> \<le> rne a" by (simp add: rne_def Let_def)
  show "rne a \<le> \<lceil>a\<rceil>"
  proof (cases "a = of_int \<lfloor>a\<rfloor>")
    case True
    then have "rne a = \<lfloor>a\<rfloor>" by (metis rne_of_int)
    then show ?thesis by (simp add: floor_le_ceiling)
  next
    case False
    then have "\<lceil>a\<rceil> = \<lfloor>a\<rfloor> + 1" by (simp add: ceiling_altdef)
    then show ?thesis by (simp add: rne_def Let_def)
  qed
qed

lemma rne_mono: "a \<le> b \<Longrightarrow> rne a \<le> rne b"
proof -
  assume ab: "a \<le> b"
  show ?thesis
  proof (cases "\<lfloor>a\<rfloor> < \<lfloor>b\<rfloor>")
    case True
    have "rne a \<le> \<lfloor>a\<rfloor> + 1" by (simp add: rne_def Let_def)
    also have "\<dots> \<le> \<lfloor>b\<rfloor>" using True by simp
    also have "\<dots> \<le> rne b" by (rule rne_floor_le)
    finally show ?thesis .
  next
    case False
    moreover have "\<lfloor>a\<rfloor> \<le> \<lfloor>b\<rfloor>" using ab by (rule floor_mono)
    ultimately have e: "\<lfloor>a\<rfloor> = \<lfloor>b\<rfloor>" by simp
    then have "a - of_int \<lfloor>a\<rfloor> \<le> b - of_int \<lfloor>b\<rfloor>" using ab by simp
    then show ?thesis unfolding rne_def Let_def e by auto
  qed
qed

lemma rne_minus: "rne (- a) = - rne a"
proof (cases "a = of_int \<lfloor>a\<rfloor>")
  case True
  then obtain n where "a = of_int n" by metis
  then show ?thesis by (metis of_int_minus rne_of_int)
next
  case False
  then have c: "\<lceil>a\<rceil> = \<lfloor>a\<rfloor> + 1" using ceiling_altdef [of a] by presburger
  have f: "\<lfloor>- a\<rfloor> = - \<lfloor>a\<rfloor> - 1" using c by (simp add: floor_minus)
  have lt: "of_int \<lfloor>a\<rfloor> < a" using False of_int_floor_le [of a] by linarith
  show ?thesis unfolding rne_def Let_def f using lt by (auto simp add: algebra_simps)
qed

lemma exponent_bounds:
  assumes "x \<noteq> 0"
  shows "2 powi \<lfloor>log 2 \<bar>x\<bar>\<rfloor> \<le> \<bar>x\<bar>" and "\<bar>x\<bar> < 2 powi (\<lfloor>log 2 \<bar>x\<bar>\<rfloor> + 1)"
proof -
  have p: "0 < \<bar>x\<bar>" using assms by simp
  have "(2::real) powr \<lfloor>log 2 \<bar>x\<bar>\<rfloor> \<le> \<bar>x\<bar> \<and> \<bar>x\<bar> < 2 powr (\<lfloor>log 2 \<bar>x\<bar>\<rfloor> + 1)"
    using floor_log_eq_powr_iff [OF p, of 2 "\<lfloor>log 2 \<bar>x\<bar>\<rfloor>"] by simp
  then show "2 powi \<lfloor>log 2 \<bar>x\<bar>\<rfloor> \<le> \<bar>x\<bar>" and "\<bar>x\<bar> < 2 powi (\<lfloor>log 2 \<bar>x\<bar>\<rfloor> + 1)"
    using powr_real_of_int' [of 2 "\<lfloor>log 2 \<bar>x\<bar>\<rfloor>"] powr_real_of_int' [of 2 "\<lfloor>log 2 \<bar>x\<bar>\<rfloor> + 1"]
    by simp_all
qed

lemma exponent_eq:
  assumes "2 powi k \<le> \<bar>x\<bar>" and "\<bar>x\<bar> < 2 powi (k + 1)"
  shows "\<lfloor>log 2 \<bar>x\<bar>\<rfloor> = k"
proof -
  have "(0::real) < 2 powi k" by simp
  with assms(1) have p: "0 < \<bar>x\<bar>" by linarith
  have "(2::real) powr k \<le> \<bar>x\<bar> \<and> \<bar>x\<bar> < 2 powr (k + 1)"
    using assms powr_real_of_int' [of 2 k] powr_real_of_int' [of 2 "k + 1"] by simp
  then show ?thesis using floor_log_eq_powr_iff [OF p, of 2 k] by simp
qed

lemma binade_eq:
  assumes "2 powi k \<le> \<bar>x\<bar>" and "\<bar>x\<bar> < 2 powi (k + 1)"
  shows "binade emin x = max emin k"
  by (simp add: binade_def exponent_eq [OF assms])

lemma roundTo_eval:
  assumes "2 powi k \<le> \<bar>x\<bar>" and "\<bar>x\<bar> < 2 powi (k + 1)"
  shows "roundTo p emin x =
           of_int (rne (x / 2 powi (max emin k - int p + 1))) * 2 powi (max emin k - int p + 1)"
proof -
  have "(0::real) < 2 powi k" by simp
  with assms(1) have "0 < \<bar>x\<bar>" by linarith
  then have "x \<noteq> 0" by simp
  then show ?thesis by (simp add: roundTo_def Let_def binade_eq [OF assms])
qed

lemma roundTo_zero [simp]: "roundTo p emin 0 = 0"
  by (simp add: roundTo_def)

lemma binade_minus [simp]: "binade emin (- x) = binade emin x"
  by (simp add: binade_def)

lemma roundTo_minus: "roundTo p emin (- x) = - roundTo p emin x"
  by (simp add: roundTo_def Let_def rne_minus)

lemma roundTo_nonneg:
  assumes "0 \<le> x"
  shows "0 \<le> roundTo p emin x"
proof (cases "x = 0")
  case True
  then show ?thesis by simp
next
  case False
  let ?u = "(2::real) powi (binade emin x - int p + 1)"
  have u: "0 < ?u" by simp
  have "0 \<le> x / ?u" using assms u by simp
  then have "0 \<le> \<lfloor>x / ?u\<rfloor>" by simp
  then have "0 \<le> rne (x / ?u)" using rne_floor_le [of "x / ?u"] by linarith
  then show ?thesis using False u by (simp add: roundTo_def Let_def)
qed

lemma roundTo_exact:
  assumes m: "\<bar>m\<bar> < 2 ^ p" and j: "emin - int p + 1 \<le> j"
  shows "roundTo p emin (of_int m * 2 powi j) = of_int m * 2 powi j"
proof (cases "m = 0")
  case True
  then show ?thesis by simp
next
  case False
  let ?x = "of_int m * (2::real) powi j"
  have x0: "?x \<noteq> 0" using False by simp
  define k where "k = \<lfloor>log 2 \<bar>?x\<bar>\<rfloor>"
  have lo: "2 powi k \<le> \<bar>?x\<bar>" unfolding k_def by (rule exponent_bounds(1) [OF x0])
  have "\<bar>?x\<bar> = of_int \<bar>m\<bar> * 2 powi j" by (simp add: abs_mult)
  also have "\<dots> < 2 ^ p * 2 powi j"
  proof -
    have "real_of_int \<bar>m\<bar> < real_of_int (2 ^ p)" using m by (simp only: of_int_less_iff)
    then show ?thesis by simp
  qed
  also have "\<dots> = 2 powi (int p + j)" by (simp add: power_int_add)
  finally have "(2::real) powi k < 2 powi (int p + j)" using lo by linarith
  then have "k < int p + j"
    by (metis linorder_not_le one_le_numeral power_int_increasing linorder_not_less)
  then have e: "binade emin ?x - int p + 1 \<le> j" using j by (simp add: binade_def k_def)
  define e0 where "e0 = binade emin ?x - int p + 1"
  define d where "d = nat (j - e0)"
  have dj: "e0 + int d = j" using e by (simp add: d_def e0_def)
  let ?u = "(2::real) powi e0"
  have u0: "?u \<noteq> 0" by simp
  have "(2::real) powi (e0 + int d) = ?u * 2 powi (int d)" by (rule power_int_add) simp
  then have pj: "(2::real) powi j = ?u * 2 ^ d" by (simp only: dj power_int_of_nat)
  have "?x / ?u = of_int m * (?u * 2 ^ d) / ?u" by (simp only: pj)
  also have "\<dots> = of_int m * 2 ^ d" using u0 by simp
  finally have xu: "?x / ?u = of_int (m * 2 ^ d)" by simp
  have "rne (?x / ?u) = m * 2 ^ d" unfolding xu by (rule rne_of_int)
  then have "roundTo p emin ?x = of_int (m * 2 ^ d) * ?u"
    using x0 by (simp add: roundTo_def Let_def e0_def)
  also have "\<dots> = of_int m * (?u * 2 ^ d)" by simp
  also have "\<dots> = ?x" by (simp only: pj)
  finally show ?thesis .
qed

lemma scaled_below_precision:
  assumes "x \<noteq> 0"
  shows "\<bar>x\<bar> / 2 powi (binade emin x - int p + 1) < 2 ^ p"
proof -
  let ?k = "\<lfloor>log 2 \<bar>x\<bar>\<rfloor>"
  let ?e = "binade emin x"
  have "?k + 1 \<le> ?e + 1" by (simp add: binade_def)
  then have "(2::real) powi (?k + 1) \<le> 2 powi (?e + 1)" by (intro power_int_increasing) simp_all
  with exponent_bounds(2) [OF assms] have lt: "\<bar>x\<bar> < 2 powi (?e + 1)" by linarith
  have "(2::real) powi (?e - int p + 1 + int p) = 2 powi (?e - int p + 1) * 2 powi (int p)"
    by (rule power_int_add) simp
  then have sp: "(2::real) powi (?e + 1) = 2 powi (?e - int p + 1) * 2 ^ p"
    by (simp add: algebra_simps)
  have u: "(0::real) < 2 powi (?e - int p + 1)" by simp
  show ?thesis using lt u unfolding sp by (simp add: pos_divide_less_eq mult.commute)
qed

lemma rne_scaled_bound:
  assumes "x \<noteq> 0"
  shows "\<bar>rne (x / 2 powi (binade emin x - int p + 1))\<bar> \<le> 2 ^ p"
proof -
  let ?u = "(2::real) powi (binade emin x - int p + 1)"
  have u: "0 < ?u" by simp
  have "\<bar>x / ?u\<bar> = \<bar>x\<bar> / ?u" using u by (simp add: abs_divide)
  with scaled_below_precision [OF assms, of emin p] have b: "\<bar>x / ?u\<bar> < 2 ^ p" by simp
  have "x / ?u \<le> \<bar>x / ?u\<bar>" and "- \<bar>x / ?u\<bar> \<le> x / ?u" by linarith+
  with b have "x / ?u \<le> 2 ^ p" and "- (2 ^ p) \<le> x / ?u" by linarith+
  then have h1: "x / ?u \<le> of_int (2 ^ p)" and h2: "of_int (- (2 ^ p)) \<le> x / ?u" by simp_all
  have "rne (x / ?u) \<le> rne (of_int (2 ^ p))" using h1 by (rule rne_mono)
  moreover have "rne (of_int (- (2 ^ p))) \<le> rne (x / ?u)" using h2 by (rule rne_mono)
  ultimately have "rne (x / ?u) \<le> 2 ^ p" and "- (2 ^ p) \<le> rne (x / ?u)"
    by (simp_all only: rne_of_int)
  then show ?thesis by simp
qed

lemma roundTo_idem:
  assumes "0 < p"
  shows "roundTo p emin (roundTo p emin x) = roundTo p emin x"
proof (cases "x = 0")
  case True
  then show ?thesis by simp
next
  case False
  define e0 where "e0 = binade emin x - int p + 1"
  define M where "M = rne (x / 2 powi e0)"
  have r: "roundTo p emin x = of_int M * 2 powi e0"
    using False by (simp add: roundTo_def Let_def M_def e0_def)
  have b: "\<bar>M\<bar> \<le> 2 ^ p" unfolding M_def e0_def by (rule rne_scaled_bound [OF False])
  have j: "emin - int p + 1 \<le> e0" by (simp add: e0_def binade_def)
  show ?thesis
  proof (cases "\<bar>M\<bar> < 2 ^ p")
    case True
    show ?thesis unfolding r by (rule roundTo_exact [OF True j])
  next
    case False
    with b have a: "\<bar>M\<bar> = 2 ^ p" by simp
    obtain q where p: "p = Suc q" using assms by (cases p) auto
    define H where "H = M div 2"
    have "even M" using a p by (metis abs_of_nonneg dvd_abs_iff even_power zero_less_Suc dvd_refl even_numeral
        zero_le_numeral zero_le_power)
    then have MH: "M = 2 * H" by (simp add: H_def)
    then have "\<bar>H\<bar> = 2 ^ q" using a p by simp
    then have hb: "\<bar>H\<bar> < 2 ^ p" using p by simp
    have "(2::real) powi (e0 + 1) = 2 powi e0 * 2 powi 1" by (rule power_int_add) simp
    then have "of_int M * (2::real) powi e0 = of_int H * 2 powi (e0 + 1)" by (simp add: MH)
    moreover have "roundTo p emin (of_int H * 2 powi (e0 + 1)) = of_int H * 2 powi (e0 + 1)"
      using j by (intro roundTo_exact [OF hb]) simp
    ultimately show ?thesis unfolding r by simp
  qed
qed

lemma roundTo_mono_pos:
  assumes p: "0 < p" and x: "0 < x" and xy: "x \<le> y"
  shows "roundTo p emin x \<le> roundTo p emin y"
proof -
  have y: "0 < y" using x xy by linarith
  define ex where "ex = binade emin x"
  define ey where "ey = binade emin y"
  have "log 2 \<bar>x\<bar> \<le> log 2 \<bar>y\<bar>" using x xy by simp
  then have kk: "\<lfloor>log 2 \<bar>x\<bar>\<rfloor> \<le> \<lfloor>log 2 \<bar>y\<bar>\<rfloor>" by (rule floor_mono)
  then have exy: "ex \<le> ey" by (simp add: ex_def ey_def binade_def)
  let ?ux = "(2::real) powi (ex - int p + 1)"
  let ?uy = "(2::real) powi (ey - int p + 1)"
  have rx: "roundTo p emin x = of_int (rne (x / ?ux)) * ?ux"
    using x by (simp add: roundTo_def Let_def ex_def)
  have ry: "roundTo p emin y = of_int (rne (y / ?uy)) * ?uy"
    using y by (simp add: roundTo_def Let_def ey_def)
  show ?thesis
  proof (cases "ex = ey")
    case True
    have "x / ?uy \<le> y / ?uy" using xy by (simp add: divide_right_mono)
    then have "rne (x / ?uy) \<le> rne (y / ?uy)" by (rule rne_mono)
    then have "real_of_int (rne (x / ?uy)) \<le> real_of_int (rne (y / ?uy))" by simp
    then have "of_int (rne (x / ?uy)) * ?uy \<le> of_int (rne (y / ?uy)) * ?uy"
      by (intro mult_right_mono) simp_all
    then show ?thesis unfolding rx ry True .
  next
    case False
    with exy have lt: "ex < ey" by simp
    have x0: "x \<noteq> 0" and y0: "y \<noteq> 0" using x y by simp_all
    have "\<bar>rne (x / ?ux)\<bar> \<le> 2 ^ p" unfolding ex_def by (rule rne_scaled_bound [OF x0])
    then have "rne (x / ?ux) \<le> 2 ^ p" by simp
    then have "real_of_int (rne (x / ?ux)) \<le> real_of_int (2 ^ p)"
      by (simp only: of_int_le_iff)
    then have le: "of_int (rne (x / ?ux)) * ?ux \<le> of_int (2 ^ p) * ?ux"
      by (intro mult_right_mono) simp_all
    have "(2::real) powi (ex - int p + 1 + int p) = ?ux * 2 powi (int p)"
      by (rule power_int_add) simp
    then have "of_int (2 ^ p) * ?ux = 2 powi (ex + 1)" by (simp add: algebra_simps)
    with le have a: "roundTo p emin x \<le> 2 powi (ex + 1)" unfolding rx by (simp only:)
    have "(2::real) powi (ex + 1) \<le> 2 powi ey" using lt by (intro power_int_increasing) simp_all
    then have b: "roundTo p emin x \<le> 2 powi ey" using a by linarith
    have "emin < ey" using lt by (simp add: ex_def binade_def)
    then have "ey = \<lfloor>log 2 \<bar>y\<bar>\<rfloor>" by (simp add: ey_def binade_def max_def split: if_splits)
    then have "2 powi ey \<le> \<bar>y\<bar>" using exponent_bounds(1) [OF y0] by simp
    then have yl: "2 powi ey \<le> y" using y by simp
    obtain q where pq: "p = Suc q" using p by (cases p) auto
    have "(2::real) powi (ey - int p + 1 + int q) = ?uy * 2 powi (int q)"
      by (rule power_int_add) simp
    then have sp: "(2::real) powi ey = ?uy * 2 ^ q" by (simp add: pq algebra_simps)
    have "of_int (2 ^ q) \<le> y / ?uy" using yl unfolding sp by (simp add: pos_le_divide_eq mult.commute)
    then have "rne (of_int (2 ^ q)) \<le> rne (y / ?uy)" by (rule rne_mono)
    then have "real_of_int (2 ^ q) \<le> real_of_int (rne (y / ?uy))" by (simp only: rne_of_int of_int_le_iff)
    then have "of_int (2 ^ q) * ?uy \<le> of_int (rne (y / ?uy)) * ?uy"
      by (intro mult_right_mono) simp_all
    then have "2 powi ey \<le> roundTo p emin y" unfolding ry sp by (simp add: mult.commute)
    with b show ?thesis by linarith
  qed
qed

lemma roundTo_mono:
  assumes p: "0 < p" and xy: "x \<le> y"
  shows "roundTo p emin x \<le> roundTo p emin y"
proof -
  consider "0 < x" | "x \<le> 0" "0 \<le> y" | "y < 0" by linarith
  then show ?thesis
  proof cases
    case 1
    then show ?thesis by (rule roundTo_mono_pos [OF p _ xy])
  next
    case 2
    have "0 \<le> roundTo p emin (- x)" using 2(1) by (intro roundTo_nonneg) simp
    then have "roundTo p emin x \<le> 0" by (simp add: roundTo_minus)
    moreover have "0 \<le> roundTo p emin y" using 2(2) by (rule roundTo_nonneg)
    ultimately show ?thesis by linarith
  next
    case 3
    then have "0 < - y" and "- y \<le> - x" using xy by simp_all
    then have "roundTo p emin (- y) \<le> roundTo p emin (- x)" by (rule roundTo_mono_pos [OF p])
    then show ?thesis by (simp add: roundTo_minus)
  qed
qed


lemma two_powi_pos [simp]: "\<not> (2::real) powi k \<le> 0"
  using zero_less_power_int [of "2::real" k] by linarith

lemma toFloat_not_NaN [simp]: "toFloat p emin emax x \<noteq> NaN"
  by (simp add: toFloat_def Let_def js_inf_def)

lemma toFloat_zero [simp]: "toFloat p emin emax 0 = Fin 0"
  by (simp add: toFloat_def)

lemma toFloat_Fin:
  "\<bar>roundTo p emin x\<bar> < 2 powi (emax + 1) \<Longrightarrow> toFloat p emin emax x = Fin (roundTo p emin x)"
  by (simp add: toFloat_def Let_def)

lemma toFloat_Fin_iff:
  "(toFloat p emin emax x = Fin y) = (roundTo p emin x = y \<and> \<bar>y\<bar> < 2 powi (emax + 1))"
  by (auto simp add: toFloat_def Let_def js_inf_def)

lemma toFloat_exact:
  assumes "\<bar>m\<bar> < 2 ^ p" and "emin - int p + 1 \<le> j"
    and "\<bar>of_int m * 2 powi j\<bar> < (2::real) powi (emax + 1)"
  shows "toFloat p emin emax (of_int m * 2 powi j) = Fin (of_int m * 2 powi j)"
  using assms(3) by (simp add: toFloat_Fin_iff roundTo_exact [OF assms(1,2)])

lemma toFloat_mono:
  assumes "0 < p" and "x \<le> y"
  shows "js_le (toFloat p emin emax x) (toFloat p emin emax y)"
proof -
  have "roundTo p emin x \<le> roundTo p emin y" by (rule roundTo_mono [OF assms])
  moreover have "(0::real) < 2 powi (emax + 1)" by simp
  ultimately show ?thesis by (auto simp add: toFloat_def Let_def js_inf_def)
qed

lemma toFloat_idem:
  assumes "0 < p" and "toFloat p emin emax x = Fin y"
  shows "toFloat p emin emax y = Fin y"
proof -
  from assms(2) have y: "roundTo p emin x = y" and b: "\<bar>y\<bar> < 2 powi (emax + 1)"
    by (simp_all add: toFloat_Fin_iff)
  have "roundTo p emin y = y" using roundTo_idem [OF assms(1), of emin x] by (simp add: y)
  then show ?thesis using b by (simp add: toFloat_Fin_iff)
qed

lemma toFloat_nonneg:
  assumes "0 \<le> x"
  shows "js_le (Fin 0) (toFloat p emin emax x)"
proof -
  have "0 \<le> roundTo p emin x" using assms by (rule roundTo_nonneg)
  then show ?thesis by (auto simp add: toFloat_def Let_def js_inf_def)
qed

lemma toDouble_dyadic:
  assumes "\<bar>m\<bar> < 2 ^ 53" and "k \<le> 1074"
  shows "toDouble (of_int m / 2 ^ k) = Fin (of_int m / 2 ^ k)"
proof -
  have e: "of_int m / (2::real) ^ k = of_int m * 2 powi (- int k)"
    by (simp add: power_int_minus field_simps)
  have "\<bar>of_int m * (2::real) powi (- int k)\<bar> = of_int \<bar>m\<bar> / 2 ^ k"
    by (simp add: power_int_minus abs_mult field_simps)
  also have "\<dots> \<le> of_int \<bar>m\<bar>" by (simp add: field_simps mult_le_cancel_left1)
  also have "\<dots> < 2 ^ 53"
  proof -
    have "real_of_int \<bar>m\<bar> < real_of_int (2 ^ 53)" using assms(1) by (simp only: of_int_less_iff)
    then show ?thesis by simp
  qed
  also have "\<dots> \<le> (2::real) powi (1023 + 1)" by simp
  finally have b: "\<bar>of_int m * (2::real) powi (- int k)\<bar> < 2 powi (1023 + 1)" .
  have j: "- 1022 - int 53 + 1 \<le> - int k" using assms(2) by simp
  show ?thesis unfolding e toDouble_def by (rule toFloat_exact [OF assms(1) j b])
qed

lemma toSingle_dyadic:
  assumes "\<bar>m\<bar> < 2 ^ 24" and "k \<le> 149"
  shows "toSingle (of_int m / 2 ^ k) = Fin (of_int m / 2 ^ k)"
proof -
  have e: "of_int m / (2::real) ^ k = of_int m * 2 powi (- int k)"
    by (simp add: power_int_minus field_simps)
  have "\<bar>of_int m * (2::real) powi (- int k)\<bar> = of_int \<bar>m\<bar> / 2 ^ k"
    by (simp add: power_int_minus abs_mult field_simps)
  also have "\<dots> \<le> of_int \<bar>m\<bar>" by (simp add: field_simps mult_le_cancel_left1)
  also have "\<dots> < 2 ^ 24"
  proof -
    have "real_of_int \<bar>m\<bar> < real_of_int (2 ^ 24)" using assms(1) by (simp only: of_int_less_iff)
    then show ?thesis by simp
  qed
  also have "\<dots> \<le> (2::real) powi (127 + 1)" by simp
  finally have b: "\<bar>of_int m * (2::real) powi (- int k)\<bar> < 2 powi (127 + 1)" .
  have j: "- 126 - int 24 + 1 \<le> - int k" using assms(2) by simp
  show ?thesis unfolding e toSingle_def by (rule toFloat_exact [OF assms(1) j b])
qed

lemma toDouble_int: "\<bar>m\<bar> < 2 ^ 53 \<Longrightarrow> toDouble (of_int m) = Fin (of_int m)"
  using toDouble_dyadic [of m 0] by simp

lemma toDouble_nat: "n < 2 ^ 53 \<Longrightarrow> toDouble (real n) = Fin (real n)"
  using toDouble_int [of "int n"] by simp

lemma toSingle_int: "\<bar>m\<bar> < 2 ^ 24 \<Longrightarrow> toSingle (of_int m) = Fin (of_int m)"
  using toSingle_dyadic [of m 0] by simp

lemma toSingle_nat: "n < 2 ^ 24 \<Longrightarrow> toSingle (real n) = Fin (real n)"
  using toSingle_int [of "int n"] by simp

lemma toDouble_mono: "x \<le> y \<Longrightarrow> js_le (toDouble x) (toDouble y)"
  unfolding toDouble_def by (rule toFloat_mono) simp_all

lemma toSingle_mono: "x \<le> y \<Longrightarrow> js_le (toSingle x) (toSingle y)"
  unfolding toSingle_def by (rule toFloat_mono) simp_all

lemma toDouble_idem: "toDouble x = Fin y \<Longrightarrow> toDouble y = Fin y"
  unfolding toDouble_def by (rule toFloat_idem) simp_all

lemma toSingle_idem: "toSingle x = Fin y \<Longrightarrow> toSingle y = Fin y"
  unfolding toSingle_def by (rule toFloat_idem) simp_all

lemma toDouble_simps [simp]: "toDouble x \<noteq> NaN" "toDouble 0 = Fin 0"
  by (simp_all add: toDouble_def)

lemma toSingle_simps [simp]: "toSingle x \<noteq> NaN" "toSingle 0 = Fin 0"
  by (simp_all add: toSingle_def)

lemma js_arith_Fin [simp]:
  "js_add (Fin a) (Fin b) = toDouble (a + b)"
  "js_sub (Fin a) (Fin b) = toDouble (a - b)"
  "js_mul (Fin a) (Fin b) = toDouble (a * b)"
  "b \<noteq> 0 \<Longrightarrow> js_div (Fin a) (Fin b) = toDouble (a / b)"
  by (simp_all add: js_add_def js_sub_def js_mul_def js_div_def)

lemma f32_arith_Fin [simp]:
  "f32_add (Fin a) (Fin b) = toSingle (a + b)"
  "f32_sub (Fin a) (Fin b) = toSingle (a - b)"
  "f32_mul (Fin a) (Fin b) = toSingle (a * b)"
  "b \<noteq> 0 \<Longrightarrow> f32_div (Fin a) (Fin b) = toSingle (a / b)"
  by (simp_all add: f32_add_def f32_sub_def f32_mul_def f32_div_def)

lemma js_le_refl_Fin [simp]: "js_le (Fin a) (Fin a)"
  by simp

lemma js_le_trans: "js_le a b \<Longrightarrow> js_le b c \<Longrightarrow> js_le a c"
  by (cases a; cases b; cases c) simp_all


lemma rne_eval:
  "of_int M - 1 / 2 < r \<Longrightarrow> r < of_int M + 1 / 2 \<Longrightarrow> rne r = M"
proof -
  assume a: "of_int M - 1 / 2 < r" and b: "r < of_int M + 1 / 2"
  show ?thesis
  proof (cases "of_int M \<le> r")
    case True
    then have "\<lfloor>r\<rfloor> = M" using b by linarith
    then show ?thesis using b by (simp add: rne_def Let_def)
  next
    case False
    then have f: "\<lfloor>r\<rfloor> = M - 1" using a by linarith
    have "1 / 2 < r - of_int (M - 1)" using a by simp
    then show ?thesis unfolding rne_def Let_def f by simp
  qed
qed

lemma rne_tie_up:
  "r = of_int M - 1 / 2 \<Longrightarrow> even M \<Longrightarrow> rne r = M"
proof -
  assume r: "r = of_int M - 1 / 2" and e: "even M"
  have f: "\<lfloor>r\<rfloor> = M - 1" unfolding r by linarith
  have d: "r - of_int (M - 1) = 1 / 2" unfolding r by simp
  show ?thesis unfolding rne_def Let_def f d using e by simp
qed

lemma rne_tie_down:
  "r = of_int M + 1 / 2 \<Longrightarrow> even M \<Longrightarrow> rne r = M"
proof -
  assume r: "r = of_int M + 1 / 2" and e: "even M"
  have f: "\<lfloor>r\<rfloor> = M" unfolding r by linarith
  have d: "r - of_int M = 1 / 2" unfolding r by simp
  show ?thesis unfolding rne_def Let_def f d using e by simp
qed

lemma toFloat_eval:
  assumes "2 powi k \<le> \<bar>x\<bar>" and "\<bar>x\<bar> < 2 powi (k + 1)"
    and "rne (x / 2 powi (max emin k - int p + 1)) = M"
    and "\<bar>of_int M * 2 powi (max emin k - int p + 1)\<bar> < (2::real) powi (emax + 1)"
  shows "toFloat p emin emax x = Fin (of_int M * 2 powi (max emin k - int p + 1))"
  using assms(3,4) by (simp add: toFloat_Fin_iff roundTo_eval [OF assms(1,2)])


lemma representable_decomp:
  assumes "roundTo p emin x = x" and "x \<noteq> 0"
  obtains M where "x = of_int M * 2 powi (binade emin x - int p + 1)" and "\<bar>M\<bar> < 2 ^ p"
proof -
  define u where "u = (2::real) powi (binade emin x - int p + 1)"
  define M where "M = rne (x / u)"
  have u: "0 < u" by (simp add: u_def)
  have x: "x = of_int M * u" using assms by (simp add: roundTo_def Let_def M_def u_def)
  have e: "x / u = of_int M" using u by (simp add: x)
  have "\<bar>x\<bar> / u = \<bar>x / u\<bar>" using u by (simp add: abs_divide)
  then have "\<bar>real_of_int M\<bar> = \<bar>x\<bar> / u" by (simp only: e)
  with scaled_below_precision [OF assms(2), of emin p] have "\<bar>real_of_int M\<bar> < 2 ^ p"
    by (simp add: u_def)
  then have "real_of_int \<bar>M\<bar> < real_of_int (2 ^ p)" by simp
  then have "\<bar>M\<bar> < 2 ^ p" by (simp only: of_int_less_iff)
  with x show ?thesis unfolding u_def by (rule that)
qed

lemma binade_small:
  assumes "0 < x" and "x < 2 ^ p" and "emin \<le> 0" and "0 < p"
  shows "binade emin x - int p + 1 \<le> 0"
proof -
  have x0: "x \<noteq> 0" using assms(1) by simp
  have "2 powi \<lfloor>log 2 \<bar>x\<bar>\<rfloor> \<le> \<bar>x\<bar>" by (rule exponent_bounds(1) [OF x0])
  then have "(2::real) powi \<lfloor>log 2 \<bar>x\<bar>\<rfloor> < 2 powi (int p)" using assms(1,2) by simp
  then have "\<lfloor>log 2 \<bar>x\<bar>\<rfloor> < int p"
    by (metis linorder_not_le one_le_numeral power_int_increasing linorder_not_less)
  then show ?thesis using assms(3,4) by (simp add: binade_def)
qed

lemma unit_inverse:
  assumes "e0 \<le> 0"
  shows "(2::real) powi e0 * 2 ^ nat (- e0) = 1"
proof -
  have "(2::real) powi (e0 + int (nat (- e0))) = 2 powi e0 * 2 powi (int (nat (- e0)))"
    by (rule power_int_add) simp
  moreover have "e0 + int (nat (- e0)) = 0" using assms by simp
  ultimately show ?thesis by (simp only: power_int_of_nat power_int_0_right)
qed

lemma representable_sub_int:
  assumes rep: "roundTo p emin x = x" and xb: "x < 2 ^ p" and em: "emin \<le> 0" and p: "0 < p"
    and c0: "0 \<le> c" and cx: "of_int c \<le> x"
  shows "roundTo p emin (x - of_int c) = x - of_int c"
proof (cases "x = 0")
  case True
  then have "c = 0" using c0 cx by simp
  then show ?thesis using True by simp
next
  case False
  then have xp: "0 < x" using c0 cx by (smt (verit) of_int_nonneg)
  define e0 where "e0 = binade emin x - int p + 1"
  obtain M where x: "x = of_int M * 2 powi e0" and M: "\<bar>M\<bar> < 2 ^ p"
    unfolding e0_def using representable_decomp [OF rep False] by blast
  have e0: "e0 \<le> 0" unfolding e0_def by (rule binade_small [OF xp xb em p])
  let ?u = "(2::real) powi e0"
  define d where "d = nat (- e0)"
  have ud: "?u * 2 ^ d = 1" unfolding d_def by (rule unit_inverse [OF e0])
  have u: "0 < ?u" by simp
  have "of_int c = of_int c * (?u * 2 ^ d)" by (simp only: ud mult_1_right)
  then have c: "real_of_int c = of_int (c * 2 ^ d) * ?u" by (simp add: mult.commute mult.left_commute)
  have diff: "x - of_int c = of_int (M - c * 2 ^ d) * ?u"
    unfolding x by (subst c) (simp add: algebra_simps)
  have "0 \<le> x - of_int c" using cx by simp
  then have "0 \<le> real_of_int (M - c * 2 ^ d) * ?u" by (simp only: diff)
  then have "0 \<le> real_of_int (M - c * 2 ^ d)" using u by (simp add: zero_le_mult_iff)
  then have lo: "0 \<le> M - c * 2 ^ d" by (simp only: of_int_0_le_iff)
  have "0 \<le> c * 2 ^ d" using c0 by simp
  then have hi: "M - c * 2 ^ d \<le> M" by simp
  have "\<bar>M - c * 2 ^ d\<bar> < 2 ^ p" using lo hi M by linarith
  moreover have "emin - int p + 1 \<le> e0" by (simp add: e0_def binade_def)
  ultimately show ?thesis unfolding diff by (rule roundTo_exact)
qed

lemma floor_rounded_quotient:
  fixes n :: int
  assumes rep: "roundTo p emin x = x" and x0: "0 \<le> x" and xb: "x < 2 ^ p"
    and em: "emin < 0" and p: "0 < p" and n0: "0 < n"
  shows "\<lfloor>roundTo p emin (x / of_int n)\<rfloor> = \<lfloor>x / of_int n\<rfloor>"
proof (cases "x = 0")
  case True
  then show ?thesis by simp
next
  case False
  note xne = this
  then have xp: "0 < x" using x0 by simp
  have np: "0 < real_of_int n" using n0 by simp
  define q where "q = x / of_int n"
  define k where "k = \<lfloor>q\<rfloor>"
  have qp: "0 < q" unfolding q_def using xp np by simp
  have k0: "0 \<le> k" unfolding k_def using qp by simp
  have kq: "of_int k \<le> q" unfolding k_def by (rule of_int_floor_le)
  have qk: "q < of_int k + 1" unfolding k_def by linarith
  have "1 \<le> real_of_int n" using n0 by simp
  then have qx: "q \<le> x" unfolding q_def using x0 by (simp add: divide_le_eq mult_le_cancel_left1)
  have "real_of_int k < 2 ^ p" using kq qx xb by linarith
  then have "real_of_int k < real_of_int (2 ^ p)" by simp
  then have kb: "\<bar>k\<bar> < 2 ^ p" using k0 by (simp only: of_int_less_iff abs_of_nonneg)
  have "roundTo p emin (of_int k * 2 powi 0) = of_int k * 2 powi 0"
    using em by (intro roundTo_exact [OF kb]) simp
  then have rk: "roundTo p emin (of_int k) = of_int k" by simp
  have "roundTo p emin (of_int k) \<le> roundTo p emin q" by (rule roundTo_mono [OF p kq])
  then have lower: "of_int k \<le> roundTo p emin q" by (simp only: rk)
  have upper: "roundTo p emin q < of_int k + 1"
  proof (cases "q < 2 powi emin")
    case True
    have "roundTo p emin (of_int 1 * 2 powi emin) = of_int 1 * 2 powi emin"
      using p by (intro roundTo_exact) simp_all
    then have r: "roundTo p emin (2 powi emin) = 2 powi emin" by simp
    have "roundTo p emin q \<le> roundTo p emin (2 powi emin)"
      using True by (intro roundTo_mono [OF p]) simp
    then have "roundTo p emin q \<le> 2 powi emin" by (simp only: r)
    moreover have "(2::real) powi emin \<le> 2 powi (- 1)"
      using em by (intro power_int_increasing) simp_all
    moreover have "(2::real) powi (- 1) = 1 / 2" by (simp add: power_int_minus)
    moreover have "0 \<le> real_of_int k" using k0 by simp
    ultimately show ?thesis by linarith
  next
    case False
    then have ql: "2 powi emin \<le> q" by simp
    have q0: "q \<noteq> 0" using qp by simp
    define eq where "eq = \<lfloor>log 2 \<bar>q\<bar>\<rfloor>"
    have eqb: "2 powi eq \<le> \<bar>q\<bar>" "\<bar>q\<bar> < 2 powi (eq + 1)"
      unfolding eq_def using exponent_bounds [OF q0] by simp_all
    have "(2::real) powi emin < 2 powi (eq + 1)" using ql eqb(2) qp by simp
    then have "emin < eq + 1"
      by (metis linorder_not_le one_le_numeral power_int_increasing linorder_not_less)
    then have bq: "binade emin q = eq" by (simp add: binade_def eq_def)
    define uq where "uq = (2::real) powi (eq - int p + 1)"
    have uqp: "0 < uq" by (simp add: uq_def)
    have rq: "roundTo p emin q = of_int (rne (q / uq)) * uq"
      using q0 by (simp add: roundTo_def Let_def bq uq_def)
    define e0 where "e0 = binade emin x - int p + 1"
    obtain M where x: "x = of_int M * 2 powi e0" and M: "\<bar>M\<bar> < 2 ^ p"
      unfolding e0_def using representable_decomp [OF rep xne] by blast
    have e0: "e0 \<le> 0" unfolding e0_def using em by (intro binade_small [OF xp xb _ p]) simp
    define u where "u = (2::real) powi e0"
    define d where "d = nat (- e0)"
    have ud: "u * 2 ^ d = 1" unfolding d_def u_def by (rule unit_inverse [OF e0])
    have up: "0 < u" by (simp add: u_def)
    have "x < (of_int k + 1) * of_int n" using qk np unfolding q_def by (simp add: pos_divide_less_eq)
    then have gap: "0 < real_of_int ((k + 1) * n) - x" by simp
    have "real_of_int ((k + 1) * n) = of_int ((k + 1) * n) * (u * 2 ^ d)"
      by (simp only: ud mult_1_right)
    then have kn: "real_of_int ((k + 1) * n) = of_int ((k + 1) * n * 2 ^ d) * u"
      by (simp add: mult.commute mult.left_commute)
    have df: "real_of_int ((k + 1) * n) - x = of_int ((k + 1) * n * 2 ^ d - M) * u"
      unfolding x u_def [symmetric] by (subst kn) (simp add: algebra_simps)
    have "0 < real_of_int ((k + 1) * n * 2 ^ d - M) * u" using gap by (simp only: df)
    then have "0 < real_of_int ((k + 1) * n * 2 ^ d - M)" using up by (simp add: zero_less_mult_iff)
    then have "0 < (k + 1) * n * 2 ^ d - M" by (simp only: of_int_0_less_iff)
    then have "1 \<le> (k + 1) * n * 2 ^ d - M" by simp
    then have "real_of_int 1 \<le> real_of_int ((k + 1) * n * 2 ^ d - M)" by (simp only: of_int_le_iff)
    then have "1 * u \<le> real_of_int ((k + 1) * n * 2 ^ d - M) * u"
      using up by (intro mult_right_mono) simp_all
    then have gapu: "u \<le> real_of_int ((k + 1) * n) - x" by (simp only: df mult_1)
    have x0': "x \<noteq> 0" by (rule xne)
    have "\<bar>x\<bar> < 2 powi (\<lfloor>log 2 \<bar>x\<bar>\<rfloor> + 1)" by (rule exponent_bounds(2) [OF x0'])
    moreover have "(2::real) powi (\<lfloor>log 2 \<bar>x\<bar>\<rfloor> + 1) \<le> 2 powi (binade emin x + 1)"
      by (intro power_int_increasing) (simp_all add: binade_def)
    ultimately have xlt: "x < 2 powi (binade emin x + 1)" using xp by simp
    have "of_int n * 2 powi eq \<le> of_int n * q" using eqb(1) qp np by simp
    also have "\<dots> = x" unfolding q_def using np by simp
    finally have nq: "of_int n * 2 powi eq < (2::real) powi (binade emin x + 1)" using xlt by linarith
    have s1: "(2::real) powi (eq - int p + 1 + (int p - 1)) = uq * 2 powi (int p - 1)"
      unfolding uq_def by (rule power_int_add) simp
    have s2: "(2::real) powi (e0 + 1 + (int p - 1)) = 2 powi (e0 + 1) * 2 powi (int p - 1)"
      by (rule power_int_add) simp
    have s3: "(2::real) powi (e0 + 1) = u * 2" unfolding u_def
      using power_int_add [of "2::real" e0 1] by simp
    have e1: "(2::real) powi eq = uq * 2 powi (int p - 1)" using s1 by simp
    have "binade emin x + 1 = e0 + 1 + (int p - 1)" by (simp add: e0_def)
    then have e2: "(2::real) powi (binade emin x + 1) = u * 2 * 2 powi (int p - 1)"
      by (simp only: s2 s3)
    have pp: "(0::real) < 2 powi (int p - 1)" by simp
    have "of_int n * uq * 2 powi (int p - 1) < u * 2 * 2 powi (int p - 1)"
      using nq unfolding e1 e2 by (simp add: mult.assoc)
    then have nu: "of_int n * uq < u * 2" using pp by (simp only: mult_less_cancel_right_pos)
    have "of_int n * (of_int k + 1 - q) = real_of_int ((k + 1) * n) - x"
      unfolding q_def using np by (simp add: algebra_simps)
    then have "u \<le> of_int n * (of_int k + 1 - q)" using gapu by simp
    then have "of_int n * uq < 2 * (of_int n * (of_int k + 1 - q))" using nu by linarith
    then have "of_int n * uq < of_int n * (2 * (of_int k + 1 - q))" by (simp add: algebra_simps)
    then have "uq < 2 * (of_int k + 1 - q)" using np by (simp only: mult_less_cancel_left_pos)
    then have "q + uq / 2 < of_int k + 1" by simp
    then have "(q + uq / 2) / uq < (of_int k + 1) / uq" using uqp by (simp only: divide_strict_right_mono)
    then have "q / uq + 1 / 2 < (of_int k + 1) / uq" using uqp by (simp add: add_divide_distrib)
    moreover have "of_int (rne (q / uq)) \<le> q / uq + 1 / 2" by (rule rne_bounds(1))
    ultimately have "of_int (rne (q / uq)) < (of_int k + 1) / uq" by linarith
    then have "of_int (rne (q / uq)) * uq < of_int k + 1" using uqp by (simp add: pos_less_divide_eq)
    then show ?thesis by (simp only: rq)
  qed
  from lower upper have "\<lfloor>roundTo p emin q\<rfloor> = k" by linarith
  then show ?thesis by (simp add: q_def k_def)
qed

lemma toFloat_overflow:
  assumes "0 < p" and "emin - int p + 1 \<le> emax + 1" and "2 powi (emax + 1) \<le> x"
  shows "toFloat p emin emax x = PInf"
proof -
  have "roundTo p emin (of_int 1 * 2 powi (emax + 1)) = of_int 1 * 2 powi (emax + 1)"
    using assms(1,2) by (intro roundTo_exact) simp_all
  then have "roundTo p emin (2 powi (emax + 1)) = 2 powi (emax + 1)" by simp
  moreover have "roundTo p emin (2 powi (emax + 1)) \<le> roundTo p emin x"
    using assms(1,3) by (rule roundTo_mono)
  ultimately have b: "2 powi (emax + 1) \<le> roundTo p emin x" by simp
  moreover have "(0::real) < 2 powi (emax + 1)" by simp
  ultimately have "0 < roundTo p emin x" by linarith
  then show ?thesis using b by (simp add: toFloat_def Let_def js_inf_def)
qed

section \<open>Properties of the decode model\<close>

lemma single_of_product:
  assumes "0 \<le> z" and "z \<le> 16777215"
  shows "toSingle z = Fin (roundTo 24 (- 126) z)"
    and "0 \<le> roundTo 24 (- 126) z" and "roundTo 24 (- 126) z < 2 ^ 24"
    and "roundTo 24 (- 126) (roundTo 24 (- 126) z) = roundTo 24 (- 126) z"
proof -
  let ?x = "roundTo 24 (- 126) z"
  show x0: "0 \<le> ?x" using assms(1) by (rule roundTo_nonneg)
  have "roundTo 24 (- 126) (of_int 16777215 * 2 powi 0) = of_int 16777215 * 2 powi 0"
    by (rule roundTo_exact) simp_all
  then have "roundTo 24 (- 126) 16777215 = 16777215" by simp
  moreover have "?x \<le> roundTo 24 (- 126) 16777215" using assms(2) by (intro roundTo_mono) simp_all
  ultimately have "?x \<le> 16777215" by simp
  then show xb: "?x < 2 ^ 24" by simp
  have "(2::real) ^ 24 \<le> 2 powi (127 + 1)" by simp
  then have "\<bar>?x\<bar> < 2 powi (127 + 1)" using x0 xb by linarith
  then show "toSingle z = Fin ?x" unfolding toSingle_def by (rule toFloat_Fin)
  show "roundTo 24 (- 126) ?x = ?x" by (rule roundTo_idem) simp
qed

lemma glsl_mod_in_range:
  fixes n :: nat
  assumes rep: "roundTo 24 (- 126) x = x" and x0: "0 \<le> x" and xb: "x < 2 ^ 24"
    and n0: "0 < n"
  shows "glsl_mod (Fin x) (Fin (real n)) = Fin (x - real n * of_int \<lfloor>x / real n\<rfloor>)"
proof -
  define k where "k = \<lfloor>x / real n\<rfloor>"
  define r where "r = roundTo 24 (- 126) (x / real n)"
  have np: "0 < real n" using n0 by simp
  have fl: "\<lfloor>r\<rfloor> = k"
    unfolding r_def k_def
    using floor_rounded_quotient [OF rep x0 xb, of "int n"] n0 by simp
  have q0: "0 \<le> x / real n" using x0 np by simp
  have k0: "0 \<le> k" unfolding k_def using q0 by simp
  have kq: "of_int k \<le> x / real n" unfolding k_def by (rule of_int_floor_le)
  then have nk: "real n * of_int k \<le> x" using np by (simp add: pos_le_divide_eq mult.commute)
  have r0: "0 \<le> r" unfolding r_def using q0 by (rule roundTo_nonneg)
  have "1 \<le> real n" using n0 by simp
  then have "x / real n \<le> x" using x0 by (simp add: divide_le_eq mult_le_cancel_left1)
  then have kx: "of_int k \<le> x" using kq by linarith
  have "r < of_int k + 1" using fl by linarith
  then have "r < 2 ^ 24 + 1" using kx xb by linarith
  moreover have "(2::real) ^ 24 + 1 \<le> 2 powi (127 + 1)" by simp
  ultimately have "\<bar>r\<bar> < 2 powi (127 + 1)" using r0 by linarith
  then have d: "f32_div (Fin x) (Fin (real n)) = Fin r"
    using np unfolding r_def by (simp add: toSingle_def toFloat_Fin)
  have "real_of_int (int n * k) \<le> x" using nk by simp
  then have "real_of_int (int n * k) < real_of_int (2 ^ 24)" using xb by simp
  then have "int n * k < 2 ^ 24" by (simp only: of_int_less_iff)
  moreover have "0 \<le> int n * k" using k0 by simp
  ultimately have "\<bar>int n * k\<bar> < 2 ^ 24" by simp
  then have "toSingle (of_int (int n * k)) = Fin (of_int (int n * k))" by (rule toSingle_int)
  then have m: "f32_mul (Fin (real n)) (Fin (of_int k)) = Fin (of_int (int n * k))" by simp
  have c0: "0 \<le> int n * k" using k0 by simp
  have cx: "of_int (int n * k) \<le> x" using nk by simp
  have "roundTo 24 (- 126) (x - of_int (int n * k)) = x - of_int (int n * k)"
    using rep xb _ _ c0 cx by (rule representable_sub_int) simp_all
  moreover have "\<bar>x - of_int (int n * k)\<bar> < 2 powi (127 + 1)"
  proof -
    have "0 \<le> x - of_int (int n * k)" using cx by simp
    moreover have "0 \<le> real_of_int (int n * k)" using c0 by (simp only: of_int_0_le_iff)
    then have "x - of_int (int n * k) \<le> x" by linarith
    moreover have "(2::real) ^ 24 \<le> 2 powi (127 + 1)" by simp
    ultimately show ?thesis using xb by linarith
  qed
  ultimately have s: "toSingle (x - of_int (int n * k)) = Fin (x - of_int (int n * k))"
    by (simp add: toSingle_def toFloat_Fin_iff)
  have m': "toSingle (real n * real_of_int k) = Fin (real n * real_of_int k)"
    using m by simp
  have s': "toSingle (x - real n * real_of_int k) = Fin (x - real n * real_of_int k)"
    using s by simp
  have "glsl_mod (Fin x) (Fin (real n)) = Fin (x - real n * real_of_int k)"
    unfolding glsl_mod_def d by (simp add: fl m' s')
  then show ?thesis by (simp add: k_def)
qed

lemma real_mod_range:
  fixes x y :: real
  assumes "0 < y"
  shows "0 \<le> x - y * of_int \<lfloor>x / y\<rfloor>" and "x - y * of_int \<lfloor>x / y\<rfloor> < y"
proof -
  have a: "of_int \<lfloor>x / y\<rfloor> \<le> x / y" by (rule of_int_floor_le)
  have b: "x / y < of_int \<lfloor>x / y\<rfloor> + 1" by linarith
  from a assms have "of_int \<lfloor>x / y\<rfloor> * y \<le> x"
    using pos_le_divide_eq [of y "of_int \<lfloor>x / y\<rfloor>" x] by blast
  then show "0 \<le> x - y * of_int \<lfloor>x / y\<rfloor>" by (simp add: mult.commute)
  from b assms have "x < (of_int \<lfloor>x / y\<rfloor> + 1) * y"
    using pos_divide_less_eq [of y x "of_int \<lfloor>x / y\<rfloor> + 1"] by blast
  then show "x - y * of_int \<lfloor>x / y\<rfloor> < y" by (simp add: algebra_simps)
qed

text \<open>
  While the product \<open>time * fps\<close> stays below \<open>2\<^sup>2\<^sup>4\<close> and the frame count is a whole
  number below \<open>2\<^sup>2\<^sup>4\<close>, the arithmetic of the frame selection is exact after the one
  rounding of the product: the frame is the floor of the remainder of the rounded
  product, it lies in \<open>[0, numFrames)\<close>, and it is 0 at an exact multiple.
\<close>

lemma vat_frame_in_range:
  fixes n :: nat
  assumes t: "0 \<le> t" and f: "0 < f" and tf: "t * f \<le> 16777215" and n0: "0 < n"
  shows "\<exists>x fr. f32_mul (Fin t) (Fin f) = Fin x
           \<and> fr = \<lfloor>x - real n * of_int \<lfloor>x / real n\<rfloor>\<rfloor>
           \<and> vat_frame (Fin t) (Fin f) (Fin (real n)) = Fin (of_int fr)
           \<and> 0 \<le> fr \<and> fr < int n
           \<and> (t * f = of_int k * real n \<longrightarrow> fr = 0)"
proof -
  define x where "x = roundTo 24 (- 126) (t * f)"
  have z0: "0 \<le> t * f" using t f by simp
  have p: "f32_mul (Fin t) (Fin f) = Fin x" and x0: "0 \<le> x" and xb: "x < 2 ^ 24"
    and rep: "roundTo 24 (- 126) x = x"
    unfolding x_def using single_of_product [OF z0 tf] by simp_all
  define m where "m = x - real n * of_int \<lfloor>x / real n\<rfloor>"
  have np: "0 < real n" using n0 by simp
  have md: "glsl_mod (Fin x) (Fin (real n)) = Fin m"
    unfolding m_def by (rule glsl_mod_in_range [OF rep x0 xb n0])
  have m0: "0 \<le> m" and m1: "m < real n" unfolding m_def using real_mod_range [OF np] by simp_all
  have fr: "vat_frame (Fin t) (Fin f) (Fin (real n)) = Fin (of_int \<lfloor>m\<rfloor>)"
    by (simp only: vat_frame_def p md glsl_floor.simps)
  have f0: "0 \<le> \<lfloor>m\<rfloor>" using m0 by simp
  have f1: "\<lfloor>m\<rfloor> < int n" using m1 by linarith
  have f2: "t * f = of_int k * real n \<longrightarrow> \<lfloor>m\<rfloor> = 0"
  proof
    assume e: "t * f = of_int k * real n"
    have k0: "0 \<le> k"
    proof (rule ccontr)
      assume "\<not> 0 \<le> k"
      then have "real_of_int k \<le> - 1" by linarith
      then have "real_of_int k * real n \<le> - 1 * real n" using np by (intro mult_right_mono) simp_all
      then show False using z0 e np by linarith
    qed
    have "real_of_int (k * int n) \<le> 16777215" using tf e by simp
    then have "real_of_int (k * int n) \<le> real_of_int 16777215" by simp
    then have "k * int n \<le> 16777215" by (simp only: of_int_le_iff)
    then have "\<bar>k * int n\<bar> < 2 ^ 24" using k0 by simp
    then have "roundTo 24 (- 126) (of_int (k * int n) * 2 powi 0) = of_int (k * int n) * 2 powi 0"
      by (rule roundTo_exact) simp
    then have "x = of_int k * real n" unfolding x_def e by simp
    then have "m = 0" unfolding m_def using np by simp
    then show "\<lfloor>m\<rfloor> = 0" by simp
  qed
  show ?thesis
    using p fr f0 f1 f2 unfolding m_def by blast
qed


lemma single_60000000: "toSingle 60000000 = Fin 60000000"
proof -
  have a: "(2::real) powi 25 \<le> \<bar>60000000\<bar>" by simp
  have b: "\<bar>60000000\<bar> < (2::real) powi (25 + 1)" by simp
  have c: "rne (60000000 / 2 powi (max (- 126) 25 - int 24 + 1)) = 15000000"
    by (rule rne_eval) simp_all
  show ?thesis
    unfolding toSingle_def
    using toFloat_eval [OF a b c, of 127] by simp
qed

lemma single_60000000_by_7: "toSingle (60000000 / 7) = Fin 8571429"
proof -
  have a: "(2::real) powi 23 \<le> \<bar>60000000 / 7\<bar>" by simp
  have b: "\<bar>60000000 / 7\<bar> < (2::real) powi (23 + 1)" by simp
  have c: "rne ((60000000 / 7) / 2 powi (max (- 126) 23 - int 24 + 1)) = 8571429"
    by (rule rne_eval) simp_all
  show ?thesis
    unfolding toSingle_def
    using toFloat_eval [OF a b c, of 127] by simp
qed

lemma single_60000003: "toSingle 60000003 = Fin 60000004"
proof -
  have a: "(2::real) powi 25 \<le> \<bar>60000003\<bar>" by simp
  have b: "\<bar>60000003\<bar> < (2::real) powi (25 + 1)" by simp
  have c: "rne (60000003 / 2 powi (max (- 126) 25 - int 24 + 1)) = 15000001"
    by (rule rne_eval) simp_all
  show ?thesis
    unfolding toSingle_def
    using toFloat_eval [OF a b c, of 127] by simp
qed

lemma single_minus_4: "toSingle (- 4) = Fin (- 4)"
  using toSingle_int [of "- 4"] by simp

text \<open>
  C1. The claim: for every time \<open>\<ge> 0\<close>, fps \<open>> 0\<close> and numFrames \<open>> 0\<close> the selected
  frame \<open>floor(mod(time * fps, numFrames))\<close> satisfies \<open>0 \<le> frame < numFrames\<close>. The
  shader computes in single precision and the time is never wrapped before it reaches
  the shader: at the time 1000000 with 60 frames per second and 7 frames the product is
  60000000, the quotient by 7 rounds up to 8571429, the product \<open>7 * 8571429\<close> rounds up
  to 60000004, and the selected frame is -4.
\<close>

theorem vat_frame_large_time:
  "f32_mul (Fin 1000000) (Fin 60) = Fin 60000000
   \<and> f32_div (Fin 60000000) (Fin 7) = Fin 8571429
   \<and> f32_mul (Fin 7) (Fin 8571429) = Fin 60000004
   \<and> glsl_mod (Fin 60000000) (Fin 7) = Fin (- 4)
   \<and> vat_frame (Fin 1000000) (Fin 60) (Fin 7) = Fin (- 4)
   \<and> \<not> js_le (Fin 0) (vat_frame (Fin 1000000) (Fin 60) (Fin 7))"
  by (simp add: vat_frame_def glsl_mod_def single_60000000 single_60000000_by_7
      single_60000003 single_minus_4)

lemma dequantize_component:
  assumes a: "toSingle a = Fin a" and d: "f32_sub b (Fin a) = Fin d" and ab: "js_le (Fin a) b"
    and s0: "js_le (Fin 0) s" and s1: "js_le s (Fin 1)"
  shows "js_le (Fin a) (f32_add (Fin a) (f32_mul (Fin d) s))"
    and "js_le (f32_add (Fin a) (f32_mul (Fin d) s)) (f32_add (Fin a) (Fin d))"
    and "f32_add (Fin a) (f32_mul (Fin d) (Fin 0)) = Fin a"
    and "f32_add (Fin a) (f32_mul (Fin d) (Fin 1)) = f32_add (Fin a) (Fin d)"
proof -
  obtain \<sigma> where s: "s = Fin \<sigma>" and \<sigma>0: "0 \<le> \<sigma>" and \<sigma>1: "\<sigma> \<le> 1"
    using s0 s1 by (cases s) simp_all
  obtain \<beta> where b: "b = Fin \<beta>" and a\<beta>: "a \<le> \<beta>"
    using ab d by (cases b) (simp_all add: f32_sub_def)
  have dd: "toSingle (\<beta> - a) = Fin d" using d by (simp add: b)
  have di: "toSingle d = Fin d" using dd by (rule toSingle_idem)
  have "js_le (toSingle 0) (toSingle (\<beta> - a))" using a\<beta> by (intro toSingle_mono) simp
  then have d0: "0 \<le> d" by (simp add: dd)
  have "d * \<sigma> \<le> d * 1" using d0 \<sigma>1 by (intro mult_left_mono) simp_all
  then have "js_le (toSingle (d * \<sigma>)) (toSingle d)" by (intro toSingle_mono) simp
  moreover have "js_le (toSingle 0) (toSingle (d * \<sigma>))"
    using d0 \<sigma>0 by (intro toSingle_mono) simp
  ultimately obtain e where e: "toSingle (d * \<sigma>) = Fin e" and e0: "0 \<le> e" and e1: "e \<le> d"
    by (cases "toSingle (d * \<sigma>)") (simp_all add: di)
  have "js_le (toSingle a) (toSingle (a + e))" using e0 by (intro toSingle_mono) simp
  then show "js_le (Fin a) (f32_add (Fin a) (f32_mul (Fin d) s))" by (simp add: s e a)
  have "js_le (toSingle (a + e)) (toSingle (a + d))" using e1 by (intro toSingle_mono) simp
  then show "js_le (f32_add (Fin a) (f32_mul (Fin d) s)) (f32_add (Fin a) (Fin d))"
    by (simp add: s e)
  show "f32_add (Fin a) (f32_mul (Fin d) (Fin 0)) = Fin a" by (simp add: a)
  show "f32_add (Fin a) (f32_mul (Fin d) (Fin 1)) = f32_add (Fin a) (Fin d)" by (simp add: di)
qed

lemma single_range_example: "toSingle (16777219 / 8388608) = Fin (8388610 / 4194304)"
proof -
  have a: "(2::real) powi 1 \<le> \<bar>16777219 / 8388608\<bar>" by simp
  have b: "\<bar>16777219 / 8388608\<bar> < (2::real) powi (1 + 1)" by simp
  have c: "rne ((16777219 / 8388608) / 2 powi (max (- 126) 1 - int 24 + 1)) = 8388610"
    by (rule rne_tie_up) (simp_all add: power_int_minus)
  show ?thesis
    unfolding toSingle_def
    using toFloat_eval [OF a b c, of 127] by (simp add: power_int_minus)
qed

lemmas single_examples =
  toSingle_dyadic [of 4194305 21, simplified] toSingle_dyadic [of 2097153 21, simplified]
  toSingle_dyadic [of 1 1, simplified] toSingle_int [of 1, simplified]
  toSingle_int [of 2, simplified] toSingle_int [of 3, simplified] toSingle_int [of 4, simplified]
  toSingle_int [of "- 1", simplified]

lemma single_overflow_example: "toSingle (2 ^ 128) = PInf"
proof -
  have "(2::real) powi (127 + 1) \<le> 2 ^ 128" by simp
  then show ?thesis unfolding toSingle_def by (intro toFloat_overflow) simp_all
qed

text \<open>
  C2, as stated, fails in the arithmetic of the shader: with the bounds -1 and
  \<open>1 + 3 / 2\<^sup>2\<^sup>3\<close>, both singles, the difference \<open>2 + 3 / 2\<^sup>2\<^sup>3\<close> is a tie and rounds to
  \<open>2 + 4 / 2\<^sup>2\<^sup>3\<close>, so the sample 1 is decoded to \<open>1 + 4 / 2\<^sup>2\<^sup>3\<close>, above posMax. And
  with the bounds \<open>- 2\<^sup>1\<^sup>2\<^sup>7\<close> and \<open>2\<^sup>1\<^sup>2\<^sup>7\<close> the difference overflows to an infinity, so
  the sample 0 is decoded to NaN, not to posMin.
\<close>

theorem dequantization_exceeds_posMax:
  "isSingle (Fin (- 1)) \<and> isSingle (Fin (1 + 3 / 2 ^ 23))
   \<and> vat_texPos (Fin 1) (Fin (- 1), Fin 0, Fin 0) (Fin (1 + 3 / 2 ^ 23), Fin 0, Fin 0)
         (Fin 1, Fin 1, Fin 1)
       = (Fin (1 + 4 / 2 ^ 23), Fin 0, Fin 0)
   \<and> \<not> v3_le (vat_texPos (Fin 1) (Fin (- 1), Fin 0, Fin 0) (Fin (1 + 3 / 2 ^ 23), Fin 0, Fin 0)
                 (Fin 1, Fin 1, Fin 1))
              (Fin (1 + 3 / 2 ^ 23), Fin 0, Fin 0)
   \<and> vat_texPos (Fin 1) (Fin (- (2 ^ 127)), Fin 0, Fin 0) (Fin (2 ^ 127), Fin 0, Fin 0)
         (Fin 0, Fin 0, Fin 0)
       = (NaN, Fin 0, Fin 0)"
  using toSingle_dyadic [of 8388611 23] single_overflow_example
  by (simp add: vat_texPos_def isSingle_def single_range_example single_examples
      f32_mul_def f32_add_def)

text \<open>
  C2, amended. For finite bounds with \<open>posMin \<le> posMax\<close> componentwise, posMin made of
  singles and a finite difference \<open>posMax - posMin\<close>, and a raw sample in \<open>[0,1]\<^sup>3\<close>, the
  packed-mode dequantization lies componentwise between posMin and the value
  \<open>posMin + (posMax - posMin)\<close> of single precision, maps the sample 0 to posMin and
  the sample 1 to that value; in unpacked mode every raw sample is returned unchanged.
\<close>

theorem vat_texPos_dequantization:
  assumes fin: "v3_all isFinite posMin" and sgl: "v3_all isSingle posMin"
    and le: "v3_le posMin posMax" and rng: "v3_all isFinite (v3_sub posMax posMin)"
    and s0: "v3_le (Fin 0, Fin 0, Fin 0) rawSample" and s1: "v3_le rawSample (Fin 1, Fin 1, Fin 1)"
  shows "(js_lt (Fin (1 / 2)) packedFlag \<longrightarrow>
            v3_le posMin (vat_texPos packedFlag posMin posMax rawSample)
          \<and> v3_le (vat_texPos packedFlag posMin posMax rawSample)
               (v3_add posMin (v3_sub posMax posMin))
          \<and> vat_texPos packedFlag posMin posMax (Fin 0, Fin 0, Fin 0) = posMin
          \<and> vat_texPos packedFlag posMin posMax (Fin 1, Fin 1, Fin 1)
              = v3_add posMin (v3_sub posMax posMin))
       \<and> (\<not> js_lt (Fin (1 / 2)) anyFlag \<longrightarrow>
            vat_texPos anyFlag anyMin anyMax anySample = anySample)"
proof -
  obtain r g b where s: "rawSample = (r, g, b)" by (cases rawSample) auto
  obtain m1 m2 m3 where mn: "posMin = (m1, m2, m3)" by (cases posMin) auto
  obtain b1 b2 b3 where mx: "posMax = (b1, b2, b3)" by (cases posMax) auto
  obtain a1 a2 a3 where m: "m1 = Fin a1" "m2 = Fin a2" "m3 = Fin a3"
    using fin unfolding mn by (cases m1; cases m2; cases m3) simp_all
  have sg: "toSingle a1 = Fin a1" "toSingle a2 = Fin a2" "toSingle a3 = Fin a3"
    using sgl unfolding mn m by (simp_all add: isSingle_def)
  obtain d1 d2 d3 where d: "f32_sub b1 (Fin a1) = Fin d1" "f32_sub b2 (Fin a2) = Fin d2"
      "f32_sub b3 (Fin a3) = Fin d3"
    using rng unfolding mn mx m
    by (cases "f32_sub b1 (Fin a1)"; cases "f32_sub b2 (Fin a2)"; cases "f32_sub b3 (Fin a3)")
       simp_all
  have ab: "js_le (Fin a1) b1" "js_le (Fin a2) b2" "js_le (Fin a3) b3"
    using le unfolding mn mx m by simp_all
  have c0: "js_le (Fin 0) r" "js_le (Fin 0) g" "js_le (Fin 0) b"
    and c1: "js_le r (Fin 1)" "js_le g (Fin 1)" "js_le b (Fin 1)"
    using s0 s1 unfolding s by simp_all
  note x = dequantize_component [OF sg(1) d(1) ab(1) c0(1) c1(1)]
  note y = dequantize_component [OF sg(2) d(2) ab(2) c0(2) c1(2)]
  note z = dequantize_component [OF sg(3) d(3) ab(3) c0(3) c1(3)]
  have p: "js_lt (Fin (1 / 2)) packedFlag \<longrightarrow>
            v3_le posMin (vat_texPos packedFlag posMin posMax rawSample)
          \<and> v3_le (vat_texPos packedFlag posMin posMax rawSample)
               (v3_add posMin (v3_sub posMax posMin))
          \<and> vat_texPos packedFlag posMin posMax (Fin 0, Fin 0, Fin 0) = posMin
          \<and> vat_texPos packedFlag posMin posMax (Fin 1, Fin 1, Fin 1)
              = v3_add posMin (v3_sub posMax posMin)"
    unfolding s mn mx m vat_texPos_def
    using x y z by (simp add: d)
  have u: "\<not> js_lt (Fin (1 / 2)) anyFlag \<longrightarrow>
            vat_texPos anyFlag anyMin anyMax anySample = anySample"
    by (simp add: vat_texPos_def)
  from p u show ?thesis by blast
qed

theorem vat_texPos_dequantization_witness:
  "v3_all isFinite (Fin (- 1), Fin 0, Fin 2) \<and> v3_all isSingle (Fin (- 1), Fin 0, Fin 2)
   \<and> v3_le (Fin (- 1), Fin 0, Fin 2) (Fin 1, Fin 0, Fin 4)
   \<and> v3_sub (Fin 1, Fin 0, Fin 4) (Fin (- 1), Fin 0, Fin 2) = (Fin 2, Fin 0, Fin 2)
   \<and> v3_all isFinite (v3_sub (Fin 1, Fin 0, Fin 4) (Fin (- 1), Fin 0, Fin 2))
   \<and> v3_le (Fin 0, Fin 0, Fin 0) (Fin (1 / 2), Fin 0, Fin 1)
   \<and> v3_le (Fin (1 / 2), Fin 0, Fin 1) (Fin 1, Fin 1, Fin 1)
   \<and> js_lt (Fin (1 / 2)) (Fin 1)
   \<and> vat_texPos (Fin 1) (Fin (- 1), Fin 0, Fin 2) (Fin 1, Fin 0, Fin 4) (Fin (1 / 2), Fin 0, Fin 1)
       = (Fin 0, Fin 0, Fin 4)
   \<and> v3_le (Fin (- 1), Fin 0, Fin 2)
        (vat_texPos (Fin 1) (Fin (- 1), Fin 0, Fin 2) (Fin 1, Fin 0, Fin 4)
           (Fin (1 / 2), Fin 0, Fin 1))
   \<and> v3_le (vat_texPos (Fin 1) (Fin (- 1), Fin 0, Fin 2) (Fin 1, Fin 0, Fin 4)
              (Fin (1 / 2), Fin 0, Fin 1))
        (Fin 1, Fin 0, Fin 4)
   \<and> vat_texPos (Fin 1) (Fin (- 1), Fin 0, Fin 2) (Fin 1, Fin 0, Fin 4) (Fin 0, Fin 0, Fin 0)
       = (Fin (- 1), Fin 0, Fin 2)
   \<and> vat_texPos (Fin 1) (Fin (- 1), Fin 0, Fin 2) (Fin 1, Fin 0, Fin 4) (Fin 1, Fin 1, Fin 1)
       = (Fin 1, Fin 0, Fin 4)
   \<and> \<not> js_lt (Fin (1 / 2)) (Fin 0)
   \<and> vat_texPos (Fin 0) (Fin (- 1), Fin 0, Fin 2) (Fin 1, Fin 0, Fin 4) (Fin 7, NaN, PInf)
       = (Fin 7, NaN, PInf)"
proof -
  have h1: "v3_all isFinite (Fin (- 1), Fin 0, Fin 2)" by simp
  have h2: "v3_all isSingle (Fin (- 1), Fin 0, Fin 2)"
    by (simp add: isSingle_def single_examples)
  have h3: "v3_le (Fin (- 1), Fin 0, Fin 2) (Fin 1, Fin 0, Fin 4)" by simp
  have sub: "v3_sub (Fin 1, Fin 0, Fin 4) (Fin (- 1), Fin 0, Fin 2) = (Fin 2, Fin 0, Fin 2)"
    by (simp add: single_examples)
  have h4: "v3_all isFinite (v3_sub (Fin 1, Fin 0, Fin 4) (Fin (- 1), Fin 0, Fin 2))"
    by (simp only: sub) simp
  have h5: "v3_le (Fin 0, Fin 0, Fin 0) (Fin (1 / 2), Fin 0, Fin 1)" by simp
  have h6: "v3_le (Fin (1 / 2), Fin 0, Fin 1) (Fin 1, Fin 1, Fin 1)" by simp
  have top: "v3_add (Fin (- 1), Fin 0, Fin 2) (Fin 2, Fin 0, Fin 2) = (Fin 1, Fin 0, Fin 4)"
    by (simp add: single_examples)
  have v: "vat_texPos (Fin 1) (Fin (- 1), Fin 0, Fin 2) (Fin 1, Fin 0, Fin 4)
             (Fin (1 / 2), Fin 0, Fin 1) = (Fin 0, Fin 0, Fin 4)"
    by (simp add: vat_texPos_def single_examples)
  show ?thesis
    using vat_texPos_dequantization [OF h1 h2 h3 h4 h5 h6, of "Fin 1" "Fin 0"
        "(Fin (- 1), Fin 0, Fin 2)" "(Fin 1, Fin 0, Fin 4)" "(Fin 7, NaN, PInf)"]
      h1 h2 h3 h4 h5 h6
    by (simp only: sub top v) simp
qed

section \<open>Properties of the instance layout\<close>

lemma instanceCountOf_cases:
  "instanceCountOf v =
     (case v of Fin a \<Rightarrow> if a = 0 then Fin 100 else Fin (max 1 (min 10000 a))
      | PInf \<Rightarrow> Fin 10000 | NInf \<Rightarrow> Fin 1 | NaN \<Rightarrow> Fin 100)"
  by (cases v) (simp_all add: instanceCountOf_def js_or_def js_truthy_def)

lemma instanceCountOf_finite:
  "\<exists>c. instanceCountOf v = Fin c \<and> 1 \<le> c \<and> c \<le> 10000"
  by (cases v) (auto simp add: instanceCountOf_cases)

lemma toDouble_between:
  assumes "toDouble lo = Fin lo" and "toDouble hi = Fin hi" and "lo \<le> x" and "x \<le> hi"
  obtains r where "toDouble x = Fin r" and "lo \<le> r" and "r \<le> hi"
proof -
  have "js_le (toDouble lo) (toDouble x)" using assms(3) by (rule toDouble_mono)
  moreover have "js_le (toDouble x) (toDouble hi)" using assms(4) by (rule toDouble_mono)
  ultimately show ?thesis using that assms(1,2) by (cases "toDouble x") simp_all
qed

lemmas double_examples =
  toDouble_int [of 1, simplified] toDouble_int [of 2, simplified] toDouble_int [of 3, simplified]
  toDouble_int [of 9, simplified] toDouble_int [of 10, simplified] toDouble_int [of 16, simplified]
  toDouble_int [of 18, simplified] toDouble_int [of 20, simplified]
  toDouble_int [of 27, simplified] toDouble_int [of 64, simplified]
  toDouble_int [of 100, simplified] toDouble_int [of 1600, simplified]
  toDouble_int [of 10000, simplified] toDouble_int [of 160000, simplified]
  toDouble_dyadic [of 5 2, simplified] toDouble_dyadic [of 27 1, simplified]
  toDouble_dyadic [of 3 1, simplified]

text \<open>
  The grid size \<^verbatim>\<open>Math.ceil(Math.sqrt(instanceCount))\<close>: a whole number \<open>g\<close> from 1 to
  100 whose square, with the rounding of the square root, is at least the count minus 1.
\<close>

lemma gridSize_cases:
  assumes c1: "1 \<le> c" and c2: "c \<le> 10000"
  obtains g :: nat where "Math_ceil (Math_sqrt (Fin c)) = Fin (real g)" and "1 \<le> g"
    and "g \<le> 100" and "c \<le> real (g * g) + 1" and "2 \<le> c \<Longrightarrow> 2 \<le> g"
proof -
  have s1: "1 \<le> sqrt c" using c1 by simp
  have "sqrt c \<le> sqrt 10000" using c2 by (simp only: real_sqrt_le_iff)
  moreover have "sqrt 10000 = 100" using real_sqrt_abs [of 100] by simp
  ultimately have s2: "sqrt c \<le> 100" by simp
  obtain r where r: "toDouble (sqrt c) = Fin r" and r1: "1 \<le> r" and r2: "r \<le> 100"
    using toDouble_between [OF _ _ s1 s2] by (auto simp add: double_examples)
  define g where "g = nat \<lceil>r\<rceil>"
  have cr: "1 \<le> \<lceil>r\<rceil>" using r1 by linarith
  have cr2: "\<lceil>r\<rceil> \<le> 100" using r2 by (simp add: ceiling_le_iff)
  have gr: "real g = of_int \<lceil>r\<rceil>" unfolding g_def using cr by simp
  have e: "Math_ceil (Math_sqrt (Fin c)) = Fin (real g)" using c1 by (simp add: r gr)
  have g1: "1 \<le> g" unfolding g_def using cr by linarith
  have g2: "g \<le> 100" unfolding g_def using cr2 by linarith
  have sq: "c \<le> real (g * g) + 1"
  proof (rule ccontr)
    assume "\<not> c \<le> real (g * g) + 1"
    then have big: "real (g * g) + 1 < c" by simp
    define w where "w = real_of_int (256 * int g + 1) / 2 ^ 8"
    have ww: "w = real g + 1 / 256" by (simp add: w_def add_divide_distrib)
    have gh: "real g \<le> 100" using g2 by simp
    have "w\<^sup>2 = real g * real g + real g / 128 + 1 / 65536"
      unfolding ww by (simp add: power2_eq_square distrib_left distrib_right add_divide_distrib)
    then have "w\<^sup>2 \<le> real g * real g + 1" using gh by linarith
    then have "w\<^sup>2 < c" using big by simp
    then have "w < sqrt c" by (rule real_less_rsqrt)
    then have "js_le (toDouble w) (toDouble (sqrt c))" by (intro toDouble_mono) simp
    moreover have "toDouble w = Fin w" unfolding w_def using g2 by (intro toDouble_dyadic) simp_all
    ultimately have "w \<le> r" by (simp add: r)
    then have "real g < r" unfolding ww by simp
    then have "of_int \<lceil>r\<rceil> < r" by (simp only: gr)
    then show False using le_of_int_ceiling [of r] by linarith
  qed
  have two: "2 \<le> g" if "2 \<le> c"
  proof -
    have "(5 / 4)\<^sup>2 \<le> c" using that by (simp add: power2_eq_square)
    then have "5 / 4 \<le> sqrt c" by (rule real_le_rsqrt)
    then have "js_le (toDouble (5 / 4)) (toDouble (sqrt c))" by (rule toDouble_mono)
    then have "5 / 4 \<le> r" by (simp add: r double_examples)
    then have "2 \<le> \<lceil>r\<rceil>" by linarith
    then show ?thesis unfolding g_def by linarith
  qed
  show ?thesis using that [of g] e g1 g2 sq two by blast
qed

lemma double_nat_rep: "n < 2 ^ 53 \<Longrightarrow> roundTo 53 (- 1022) (real n) = real n"
  using roundTo_exact [of "int n" 53 "- 1022" 0] by simp

lemma js_row:
  assumes g: "0 < g" and i: "i < 2 ^ 53"
  shows "Math_floor (js_div (Fin (real i)) (Fin (real g))) = Fin (real (i div g))"
proof -
  let ?r = "roundTo 53 (- 1022) (real i / real g)"
  have rep: "roundTo 53 (- 1022) (real i) = real i" by (rule double_nat_rep [OF i])
  have xb: "real i < 2 ^ 53" using i by (metis of_nat_less_iff of_nat_numeral of_nat_power)
  have fl: "\<lfloor>?r\<rfloor> = \<lfloor>real i / real g\<rfloor>"
    using floor_rounded_quotient [OF rep _ xb, of "int g"] g by simp
  have q0: "0 \<le> real i / real g" by simp
  have r0: "0 \<le> ?r" using q0 by (rule roundTo_nonneg)
  have "1 \<le> real g" using g by simp
  then have "real i / real g \<le> real i" by (simp add: divide_le_eq mult_le_cancel_left1)
  then have "of_int \<lfloor>real i / real g\<rfloor> \<le> real i" using of_int_floor_le [of "real i / real g"] by linarith
  moreover have "?r < of_int \<lfloor>?r\<rfloor> + 1" by linarith
  ultimately have "?r < 2 ^ 53 + 1" using xb fl by linarith
  moreover have "(2::real) ^ 53 + 1 \<le> 2 powi (1023 + 1)" by simp
  ultimately have "\<bar>?r\<bar> < 2 powi (1023 + 1)" using r0 by linarith
  then have "toDouble (real i / real g) = Fin ?r" unfolding toDouble_def by (rule toFloat_Fin)
  then have "Math_floor (js_div (Fin (real i)) (Fin (real g))) = Fin (of_int \<lfloor>real i / real g\<rfloor>)"
    using g by (simp add: fl)
  then show ?thesis by (simp add: floor_divide_of_nat_eq)
qed

lemma js_col:
  assumes "0 < g"
  shows "js_rem (Fin (real i)) (Fin (real g)) = Fin (real (i mod g))"
proof -
  have "js_trunc (real i / real g) = real (i div g)"
    by (simp add: js_trunc_def floor_divide_of_nat_eq)
  moreover have "real i - real g * real (i div g) = real (i mod g)"
    by (metis add_diff_cancel_left' mult_div_mod_eq of_nat_add of_nat_mult)
  ultimately show ?thesis using assms by simp
qed

declare instanceLoop.simps [simp del]

lemma copyToArray_length [simp]: "length (copyToArray m array offset) = length array"
  by (induction m arbitrary: array offset) simp_all

lemma copyToArray_nth:
  "j < length array \<Longrightarrow>
   copyToArray m array offset ! j =
     (if offset \<le> j \<and> j < offset + length m then Math_fround (m ! (j - offset)) else array ! j)"
proof (induction m arbitrary: array offset)
  case Nil
  then show ?case by auto
next
  case (Cons v vs)
  have "copyToArray (v # vs) array offset ! j =
          copyToArray vs (array[offset := Math_fround v]) (Suc offset) ! j"
    by simp
  also have "\<dots> = (if Suc offset \<le> j \<and> j < Suc offset + length vs
                   then Math_fround (vs ! (j - Suc offset))
                   else array[offset := Math_fround v] ! j)"
    using Cons.prems by (simp add: Cons.IH)
  also have "\<dots> = (if offset \<le> j \<and> j < offset + length (v # vs)
                   then Math_fround ((v # vs) ! (j - offset))
                   else array ! j)"
    using Cons.prems by (auto simp add: nth_Cons' nth_list_update)
  finally show ?case .
qed

lemma instanceLoop_lengths:
  "length (fst (instanceLoop c gs sp go ad i bufs)) = length (fst bufs)
   \<and> length (snd (instanceLoop c gs sp go ad i bufs)) = length (snd bufs)"
proof (induction c gs sp go ad i bufs rule: instanceLoop.induct)
  case (1 c gs sp go ad i bufs)
  show ?case
  proof (cases "real i < c")
    case True
    have "instanceLoop c gs sp go ad i bufs =
            instanceLoop c gs sp go ad (Suc i) (instanceBody gs sp go ad i bufs)"
      using True by (subst instanceLoop.simps) simp
    then show ?thesis using "1.IH" [OF True]
      by (simp add: instanceBody_def split: prod.splits)
  next
    case False
    then show ?thesis by (subst (1 2) instanceLoop.simps) simp
  qed
qed

lemma instanceLoop_timeOffsets:
  "k < length (snd bufs) \<Longrightarrow>
   snd (instanceLoop c gs sp go ad i bufs) ! k =
     (if i \<le> k \<and> real k < c then Math_fround (instanceTimeOffset gs ad k) else snd bufs ! k)"
proof (induction c gs sp go ad i bufs rule: instanceLoop.induct)
  case (1 c gs sp go ad i bufs)
  show ?case
  proof (cases "real i < c")
    case True
    let ?b = "instanceBody gs sp go ad i bufs"
    have eq: "instanceLoop c gs sp go ad i bufs = instanceLoop c gs sp go ad (Suc i) ?b"
      using True by (subst instanceLoop.simps) simp
    have sb: "snd ?b = (snd bufs)[i := Math_fround (instanceTimeOffset gs ad i)]"
      by (simp add: instanceBody_def split: prod.splits)
    have k: "k < length (snd ?b)" using "1.prems" by (simp add: sb)
    have "snd (instanceLoop c gs sp go ad (Suc i) ?b) ! k =
            (if Suc i \<le> k \<and> real k < c then Math_fround (instanceTimeOffset gs ad k)
             else snd ?b ! k)"
      by (rule "1.IH" [OF True k])
    then have r: "snd (instanceLoop c gs sp go ad i bufs) ! k =
            (if Suc i \<le> k \<and> real k < c then Math_fround (instanceTimeOffset gs ad k)
             else (snd bufs)[i := Math_fround (instanceTimeOffset gs ad i)] ! k)"
      by (simp only: eq sb)
    show ?thesis
    proof (cases "k = i")
      case True
      then show ?thesis using r "1.prems" \<open>real i < c\<close> by simp
    next
      case False
      then have "(Suc i \<le> k) = (i \<le> k)" by auto
      then show ?thesis using r False by simp
    qed
  next
    case False
    then have "instanceLoop c gs sp go ad i bufs = bufs" by (subst instanceLoop.simps) simp
    moreover have "\<not> (i \<le> k \<and> real k < c)"
    proof
      assume a: "i \<le> k \<and> real k < c"
      then have "real i \<le> real k" by simp
      with a False show False by linarith
    qed
    ultimately show ?thesis by auto
  qed
qed

lemma instanceMatrix_length [simp]: "length (instanceMatrix gs sp go i) = 16"
  by (simp add: instanceMatrix_def Matrix_Translation_def Let_def)

lemma instanceLoop_matrices:
  "j < length (fst bufs) \<Longrightarrow>
   fst (instanceLoop c gs sp go ad i bufs) ! j =
     (if i * 16 \<le> j \<and> real (j div 16) < c
      then Math_fround (instanceMatrix gs sp go (j div 16) ! (j mod 16))
      else fst bufs ! j)"
proof (induction c gs sp go ad i bufs rule: instanceLoop.induct)
  case (1 c gs sp go ad i bufs)
  show ?case
  proof (cases "real i < c")
    case True
    let ?b = "instanceBody gs sp go ad i bufs"
    have eq: "instanceLoop c gs sp go ad i bufs = instanceLoop c gs sp go ad (Suc i) ?b"
      using True by (subst instanceLoop.simps) simp
    have fb: "fst ?b = copyToArray (instanceMatrix gs sp go i) (fst bufs) (i * 16)"
      by (simp add: instanceBody_def split: prod.splits)
    have j: "j < length (fst ?b)" using "1.prems" by (simp add: fb)
    have ih: "fst (instanceLoop c gs sp go ad (Suc i) ?b) ! j =
            (if Suc i * 16 \<le> j \<and> real (j div 16) < c
             then Math_fround (instanceMatrix gs sp go (j div 16) ! (j mod 16)) else fst ?b ! j)"
      by (rule "1.IH" [OF True j])
    have cp: "fst ?b ! j =
            (if i * 16 \<le> j \<and> j < i * 16 + 16
             then Math_fround (instanceMatrix gs sp go i ! (j - i * 16))
             else fst bufs ! j)"
      unfolding fb using "1.prems" by (simp add: copyToArray_nth)
    show ?thesis
    proof (cases "i * 16 \<le> j \<and> j < i * 16 + 16")
      case True2: True
      then have d: "j div 16 = i" by (auto simp add: div_nat_eqI)
      have "j mod 16 = j - j div 16 * 16" by (simp add: minus_div_mult_eq_mod)
      then have m: "j mod 16 = j - i * 16" by (simp add: d)
      show ?thesis unfolding eq ih cp using True True2 d m by simp
    next
      case False
      then have "Suc i * 16 \<le> j \<or> j < i * 16" by auto
      then show ?thesis unfolding eq ih cp using False by auto
    qed
  next
    case False
    then have e: "instanceLoop c gs sp go ad i bufs = bufs" by (subst instanceLoop.simps) simp
    have "\<not> (i * 16 \<le> j \<and> real (j div 16) < c)"
    proof
      assume a: "i * 16 \<le> j \<and> real (j div 16) < c"
      then have "i \<le> j div 16" by (simp add: less_eq_div_iff_mult_less_eq)
      then have "real i \<le> real (j div 16)" by simp
      with a False show False by linarith
    qed
    then show ?thesis using e by auto
  qed
qed

lemma newFloat32Array_Fin:
  assumes "0 \<le> a" and "a \<le> 160000"
  shows "newFloat32Array (Fin a) = Some (replicate (nat \<lfloor>a\<rfloor>) (Fin 0))"
proof -
  have "js_trunc a = of_int \<lfloor>a\<rfloor>" using assms by (simp add: js_trunc_def)
  moreover have "0 \<le> \<lfloor>a\<rfloor>" using assms by simp
  moreover have "\<lfloor>a\<rfloor> \<le> 160000" using assms by linarith
  moreover have "(160000::real) \<le> 2 ^ 53 - 1" by simp
  ultimately show ?thesis
    by (simp add: newFloat32Array_def)
qed

text \<open>The allocation of the matrix buffer: it has room for every instance.\<close>

lemma matricesData_alloc:
  assumes c1: "1 \<le> c" and c2: "c \<le> 10000"
  obtains len where "newFloat32Array (js_mul (Fin c) (Fin 16)) = Some (replicate len (Fin 0))"
    and "16 * nat \<lfloor>c\<rfloor> \<le> len"
proof -
  have lo: "16 \<le> c * 16" and hi: "c * 16 \<le> 160000" using c1 c2 by simp_all
  obtain m where m: "toDouble (c * 16) = Fin m" and m1: "16 \<le> m" and m2: "m \<le> 160000"
    using toDouble_between [OF _ _ lo hi] by (auto simp add: double_examples)
  have a: "newFloat32Array (js_mul (Fin c) (Fin 16)) = Some (replicate (nat \<lfloor>m\<rfloor>) (Fin 0))"
    using newFloat32Array_Fin [of m] m1 m2 by (simp add: m)
  define k where "k = nat \<lfloor>c\<rfloor>"
  have kc: "real k \<le> c" unfolding k_def using c1 by (simp add: of_nat_nat)
  have "k \<le> 10000" unfolding k_def using c2 by linarith
  then have "toDouble (real (16 * k)) = Fin (real (16 * k))" by (intro toDouble_nat) simp
  moreover have "js_le (toDouble (real (16 * k))) (toDouble (c * 16))"
    using kc by (intro toDouble_mono) simp
  ultimately have "real (16 * k) \<le> m" by (simp add: m)
  then have "int (16 * k) \<le> \<lfloor>m\<rfloor>" by (simp add: le_floor_iff)
  then have "16 * k \<le> nat \<lfloor>m\<rfloor>" by linarith
  then show ?thesis using that a unfolding k_def by blast
qed

lemma layout_records:
  fixes cv sv nv fv :: jsnum and c :: real
  assumes c: "instanceCountOf cv = Fin c"
  shows "\<exists>l. instanceLayout cv sv nv fv = Inr l
           \<and> l_instanceCount l = Fin c
           \<and> l_gridSize l = Math_ceil (Math_sqrt (Fin c))
           \<and> l_spacing l = js_or sv (Fin 3)
           \<and> l_animDuration l = js_div (js_or nv (Fin 24)) (js_or fv (Fin 24))
           \<and> length (l_timeOffsets l) = nat \<lfloor>c\<rfloor>
           \<and> (\<forall>k < nat \<lfloor>c\<rfloor>.
                 recordTimeOffset l k =
                   Some (Math_fround (instanceTimeOffset (l_gridSize l) (l_animDuration l) k))
               \<and> recordTransform l k =
                   map Math_fround
                     (instanceMatrix (l_gridSize l) (l_spacing l)
                        (gridOffsetOf (l_gridSize l) (l_spacing l)) k))"
proof -
  let ?gs = "Math_ceil (Math_sqrt (Fin c))"
  let ?sp = "js_or sv (Fin 3)"
  let ?ad = "js_div (js_or nv (Fin 24)) (js_or fv (Fin 24))"
  from instanceCountOf_finite [of cv] c have r: "1 \<le> c" "c \<le> 10000" by auto
  obtain len where a1: "newFloat32Array (js_mul (Fin c) (Fin 16)) = Some (replicate len (Fin 0))"
    and len: "16 * nat \<lfloor>c\<rfloor> \<le> len"
    using matricesData_alloc [OF r] by blast
  have a2: "newFloat32Array (Fin c) = Some (replicate (nat \<lfloor>c\<rfloor>) (Fin 0))"
    using r newFloat32Array_Fin [of c] by simp
  let ?b0 = "(replicate len (Fin 0), replicate (nat \<lfloor>c\<rfloor>) (Fin 0))"
  let ?bufs = "instanceLoop c ?gs ?sp (gridOffsetOf ?gs ?sp) ?ad 0 ?b0"
  let ?l = "\<lparr> l_instanceCount = Fin c, l_gridSize = ?gs, l_spacing = ?sp,
                 l_animDuration = ?ad, l_matricesData = fst ?bufs, l_timeOffsets = snd ?bufs \<rparr>"
  have e: "instanceLayout cv sv nv fv = Inr ?l"
    unfolding instanceLayout_def Let_def c a1 a2 by simp
  have lt: "length (snd ?bufs) = nat \<lfloor>c\<rfloor>" and lm: "length (fst ?bufs) = len"
    using instanceLoop_lengths [of c ?gs ?sp "gridOffsetOf ?gs ?sp" ?ad 0 ?b0] by simp_all
  have rec: "recordTimeOffset ?l k = Some (Math_fround (instanceTimeOffset ?gs ?ad k))
           \<and> recordTransform ?l k =
               map Math_fround (instanceMatrix ?gs ?sp (gridOffsetOf ?gs ?sp) k)"
    if k: "k < nat \<lfloor>c\<rfloor>" for k
  proof
    have kc: "real k < c" using k by linarith
    have "snd ?bufs ! k = Math_fround (instanceTimeOffset ?gs ?ad k)"
      using instanceLoop_timeOffsets [of k ?b0 c ?gs ?sp "gridOffsetOf ?gs ?sp" ?ad 0] k kc
      by simp
    then show "recordTimeOffset ?l k = Some (Math_fround (instanceTimeOffset ?gs ?ad k))"
      using k lt by (simp add: recordTimeOffset_def)
    have k16: "16 * k + 16 \<le> len" using k len by linarith
    show "recordTransform ?l k =
            map Math_fround (instanceMatrix ?gs ?sp (gridOffsetOf ?gs ?sp) k)"
    proof (rule nth_equalityI)
      show "length (recordTransform ?l k) =
              length (map Math_fround (instanceMatrix ?gs ?sp (gridOffsetOf ?gs ?sp) k))"
        using k16 lm by (simp add: recordTransform_def)
    next
      fix j assume "j < length (recordTransform ?l k)"
      then have j: "j < 16" by (simp add: recordTransform_def)
      have jl: "16 * k + j < length (fst ?b0)" using j k16 by simp
      have d: "(16 * k + j) div 16 = k" and m: "(16 * k + j) mod 16 = j" using j by simp_all
      have "fst ?bufs ! (16 * k + j) =
              Math_fround (instanceMatrix ?gs ?sp (gridOffsetOf ?gs ?sp) k ! j)"
        using instanceLoop_matrices [OF jl, of c ?gs ?sp "gridOffsetOf ?gs ?sp" ?ad 0] kc
        by (simp only: d m) simp
      then show "recordTransform ?l k ! j =
                   map Math_fround (instanceMatrix ?gs ?sp (gridOffsetOf ?gs ?sp) k) ! j"
        using j k16 lm by (simp add: recordTransform_def)
    qed
  qed
  show ?thesis
    apply (rule exI [of _ ?l])
    using e lt rec by simp
qed


lemma sqrt_100: "sqrt 100 = 10" using real_sqrt_abs [of 10] by simp
lemma sqrt_4: "sqrt 4 = 2" using real_sqrt_abs [of 2] by simp

lemma instanceTimeOffset_Fin:
  assumes g: "0 < g" "g \<le> 100" and i: "i \<le> 10000"
  shows "instanceTimeOffset (Fin (real g)) ad i =
           js_mul (js_div (Fin (real (i div g + i mod g))) (Fin (real (g * 2 - 2)))) ad"
proof -
  have i53: "i < 2 ^ 53" using i by simp
  have "i div g \<le> i" by simp
  moreover have "i mod g < g" using g(1) by simp
  ultimately have "i div g + i mod g < 10100" using i g(2) by linarith
  then have "i div g + i mod g < 2 ^ 53" by simp
  then have "toDouble (real (i div g + i mod g)) = Fin (real (i div g + i mod g))"
    by (rule toDouble_nat)
  then have s: "js_add (Fin (real (i div g))) (Fin (real (i mod g))) = Fin (real (i div g + i mod g))"
    by simp
  have "toDouble (real (g * 2)) = Fin (real (g * 2))" using g(2) by (intro toDouble_nat) simp
  then have m: "js_mul (Fin (real g)) (Fin 2) = Fin (real (g * 2))" by simp
  have "toDouble (real (g * 2 - 2)) = Fin (real (g * 2 - 2))" using g(2) by (intro toDouble_nat) simp
  moreover have "real (g * 2 - 2) = real (g * 2) - 2" using g(1) by (simp add: of_nat_diff)
  ultimately have d: "js_sub (Fin (real (g * 2))) (Fin 2) = Fin (real (g * 2 - 2))" by simp
  show ?thesis
    unfolding instanceTimeOffset_def Let_def js_row [OF g(1) i53] js_col [OF g(1)] s m d ..
qed

lemma instanceMatrix_shape:
  "\<exists>x z. map Math_fround (instanceMatrix gs sp go i) = Matrix_Translation x (Fin 0) z"
  by (simp add: instanceMatrix_def Let_def Matrix_Translation_def toSingle_int [of 1, simplified])

lemma js_div_double: "js_div x y = Fin a \<Longrightarrow> toDouble a = Fin a"
proof (cases x; cases y)
  fix p q assume xy: "x = Fin p" "y = Fin q" and e: "js_div x y = Fin a"
  show "toDouble a = Fin a"
  proof (cases "q = 0")
    case True
    then show ?thesis using e xy by (simp add: js_div_def js_inf_def split: if_splits)
  next
    case False
    then have "toDouble (p / q) = Fin a" using e xy by simp
    then show ?thesis by (rule toDouble_idem)
  qed
qed (simp_all add: js_div_def js_inf_def split: if_splits)

lemma js_mul_one_double:
  assumes "js_div x y = v"
  shows "js_mul (Fin 1) v = v"
proof (cases v)
  case (Fin a)
  then have "toDouble a = Fin a" using assms js_div_double by blast
  then show ?thesis using Fin by simp
qed (simp_all add: js_mul_def js_inf_def)

text \<open>
  C3. The claim: with count = 1 the single instance sits at the origin and its timeOffset
  is 0 through an explicit guard, not NaN. The code has no guard: the grid size is 1, the
  divisor \<open>gridSize * 2 - 2\<close> is 0, and the one time offset is \<open>(0 / 0) * animDuration\<close>,
  which is NaN whatever the spacing, the frame count and the frame rate are.
\<close>

theorem single_instance_timeOffset_NaN:
  "\<not> isl (instanceLayout (Fin 1) sv nv fv)
   \<and> l_gridSize (projr (instanceLayout (Fin 1) sv nv fv)) = Fin 1
   \<and> l_timeOffsets (projr (instanceLayout (Fin 1) sv nv fv)) = [NaN]"
proof -
  have c: "instanceCountOf (Fin 1) = Fin 1" by (simp add: instanceCountOf_cases)
  obtain l where l: "instanceLayout (Fin 1) sv nv fv = Inr l"
    and g: "l_gridSize l = Math_ceil (Math_sqrt (Fin 1))"
    and n: "length (l_timeOffsets l) = nat \<lfloor>1::real\<rfloor>"
    and r: "\<forall>k < nat \<lfloor>1::real\<rfloor>.
              recordTimeOffset l k =
                Some (Math_fround (instanceTimeOffset (l_gridSize l) (l_animDuration l) k))
            \<and> recordTransform l k =
                map Math_fround
                  (instanceMatrix (l_gridSize l) (l_spacing l)
                     (gridOffsetOf (l_gridSize l) (l_spacing l)) k)"
    using layout_records [OF c, of sv nv fv] by blast
  have g1: "l_gridSize l = Fin 1" using g by (simp add: double_examples)
  have n1: "length (l_timeOffsets l) = 1" using n by simp
  have "recordTimeOffset l 0 =
          Some (Math_fround (instanceTimeOffset (Fin 1) (l_animDuration l) 0))"
    using r g1 by simp
  moreover have "instanceTimeOffset (Fin 1) (l_animDuration l) 0 = NaN"
    by (simp add: instanceTimeOffset_def js_trunc_def double_examples js_div_def js_mul_def)
  ultimately have "l_timeOffsets l ! 0 = NaN" using n1 by (simp add: recordTimeOffset_def)
  then have "l_timeOffsets l = [NaN]" using n1 by (cases "l_timeOffsets l") simp_all
  then show ?thesis using l g1 by simp
qed

lemma double_tenth: "toDouble (1 / 10) = Fin (3602879701896397 / 2 ^ 55)"
proof -
  have a: "(2::real) powi (- 4) \<le> \<bar>1 / 10\<bar>" by (simp add: power_int_minus)
  have b: "\<bar>1 / 10\<bar> < (2::real) powi (- 4 + 1)" by (simp add: power_int_minus)
  have c: "rne ((1 / 10) / 2 powi (max (- 1022) (- 4) - int 53 + 1)) = 7205759403792794"
    by (rule rne_eval) (simp_all add: power_int_minus)
  show ?thesis
    unfolding toDouble_def
    using toFloat_eval [OF a b c, of 1023] by (simp add: power_int_minus)
qed

lemma single_tenth: "toSingle (3602879701896397 / 2 ^ 55) = Fin (13421773 / 2 ^ 27)"
proof -
  have a: "(2::real) powi (- 4) \<le> \<bar>3602879701896397 / 2 ^ 55\<bar>" by (simp add: power_int_minus)
  have b: "\<bar>3602879701896397 / 2 ^ 55\<bar> < (2::real) powi (- 4 + 1)" by (simp add: power_int_minus)
  have c: "rne ((3602879701896397 / 2 ^ 55) / 2 powi (max (- 126) (- 4) - int 24 + 1)) = 13421773"
    by (rule rne_eval) (simp_all add: power_int_minus)
  show ?thesis
    unfolding toSingle_def
    using toFloat_eval [OF a b c, of 127] by (simp add: power_int_minus)
qed

text \<open>
  C4, as stated, fails: with four instances, 1 frame and 10 frames per second the
  animation lasts the double nearest to 0.1, and the time offset of the instance at
  row 1, column 1 is that duration converted to a single, which is above it. With one
  instance the time offset is NaN, and with an infinite frame count, so an infinite
  duration, the time offset of the first instance is \<open>0 * Infinity\<close>, NaN again.
\<close>

theorem timeOffset_exceeds_animDuration:
  "\<not> isl (instanceLayout (Fin 4) (Fin 3) (Fin 1) (Fin 10))
   \<and> l_animDuration (projr (instanceLayout (Fin 4) (Fin 3) (Fin 1) (Fin 10)))
       = Fin (3602879701896397 / 2 ^ 55)
   \<and> recordTimeOffset (projr (instanceLayout (Fin 4) (Fin 3) (Fin 1) (Fin 10))) 3
       = Some (Fin (13421773 / 2 ^ 27))
   \<and> \<not> js_lt (Fin (13421773 / 2 ^ 27)) (Fin (3602879701896397 / 2 ^ 55))
   \<and> \<not> js_le (Fin (13421773 / 2 ^ 27)) (Fin (3602879701896397 / 2 ^ 55))
   \<and> recordTimeOffset (projr (instanceLayout (Fin 1) (Fin 3) (Fin 24) (Fin 24))) 0 = Some NaN
   \<and> l_animDuration (projr (instanceLayout (Fin 4) (Fin 3) PInf (Fin 24))) = PInf
   \<and> recordTimeOffset (projr (instanceLayout (Fin 4) (Fin 3) PInf (Fin 24))) 0 = Some NaN"
proof -
  have c: "instanceCountOf (Fin 4) = Fin 4" by (simp add: instanceCountOf_cases)
  obtain l where l: "instanceLayout (Fin 4) (Fin 3) (Fin 1) (Fin 10) = Inr l"
    and g: "l_gridSize l = Math_ceil (Math_sqrt (Fin 4))"
    and a: "l_animDuration l = js_div (js_or (Fin 1) (Fin 24)) (js_or (Fin 10) (Fin 24))"
    and r: "\<forall>k < nat \<lfloor>4::real\<rfloor>.
              recordTimeOffset l k =
                Some (Math_fround (instanceTimeOffset (l_gridSize l) (l_animDuration l) k))
            \<and> recordTransform l k =
                map Math_fround
                  (instanceMatrix (l_gridSize l) (l_spacing l)
                     (gridOffsetOf (l_gridSize l) (l_spacing l)) k)"
    using layout_records [OF c, of "Fin 3" "Fin 1" "Fin 10"] by blast
  have g2: "l_gridSize l = Fin (real 2)" using g by (simp add: sqrt_4 double_examples)
  have a1: "l_animDuration l = Fin (3602879701896397 / 2 ^ 55)"
    using a double_tenth by (simp add: js_or_def js_truthy_def)
  have d: "toDouble (3602879701896397 / 2 ^ 55) = Fin (3602879701896397 / 2 ^ 55)"
    using double_tenth by (rule toDouble_idem)
  have "recordTimeOffset l 3 =
          Some (Math_fround (instanceTimeOffset (Fin (real 2)) (Fin (3602879701896397 / 2 ^ 55)) 3))"
    using r g2 a1 by simp
  moreover have "instanceTimeOffset (Fin (real 2)) (Fin (3602879701896397 / 2 ^ 55)) 3
                   = Fin (3602879701896397 / 2 ^ 55)"
    using d by (subst instanceTimeOffset_Fin) (simp_all add: double_examples)
  ultimately have t3: "recordTimeOffset l 3 = Some (Fin (13421773 / 2 ^ 27))"
    using single_tenth by simp
  have c1: "instanceCountOf (Fin 1) = Fin 1" by (simp add: instanceCountOf_cases)
  obtain l1 where l1: "instanceLayout (Fin 1) (Fin 3) (Fin 24) (Fin 24) = Inr l1"
    and g1: "l_gridSize l1 = Math_ceil (Math_sqrt (Fin 1))"
    and r1: "\<forall>k < nat \<lfloor>1::real\<rfloor>.
              recordTimeOffset l1 k =
                Some (Math_fround (instanceTimeOffset (l_gridSize l1) (l_animDuration l1) k))
            \<and> recordTransform l1 k =
                map Math_fround
                  (instanceMatrix (l_gridSize l1) (l_spacing l1)
                     (gridOffsetOf (l_gridSize l1) (l_spacing l1)) k)"
    using layout_records [OF c1, of "Fin 3" "Fin 24" "Fin 24"] by blast
  have "l_gridSize l1 = Fin 1" using g1 by (simp add: double_examples)
  then have "recordTimeOffset l1 0 =
          Some (Math_fround (instanceTimeOffset (Fin 1) (l_animDuration l1) 0))"
    using r1 by simp
  moreover have "instanceTimeOffset (Fin 1) (l_animDuration l1) 0 = NaN"
    by (simp add: instanceTimeOffset_def js_trunc_def double_examples js_div_def js_mul_def)
  ultimately have t1: "recordTimeOffset l1 0 = Some NaN" by simp
  obtain li where li: "instanceLayout (Fin 4) (Fin 3) PInf (Fin 24) = Inr li"
    and gi: "l_gridSize li = Math_ceil (Math_sqrt (Fin 4))"
    and ai: "l_animDuration li = js_div (js_or PInf (Fin 24)) (js_or (Fin 24) (Fin 24))"
    and ri: "\<forall>k < nat \<lfloor>4::real\<rfloor>.
              recordTimeOffset li k =
                Some (Math_fround (instanceTimeOffset (l_gridSize li) (l_animDuration li) k))
            \<and> recordTransform li k =
                map Math_fround
                  (instanceMatrix (l_gridSize li) (l_spacing li)
                     (gridOffsetOf (l_gridSize li) (l_spacing li)) k)"
    using layout_records [OF c, of "Fin 3" PInf "Fin 24"] by blast
  have gi2: "l_gridSize li = Fin (real 2)" using gi by (simp add: sqrt_4 double_examples)
  have ai1: "l_animDuration li = PInf"
    using ai by (simp add: js_or_def js_truthy_def js_div_def js_inf_def)
  have "recordTimeOffset li 0 = Some (Math_fround (instanceTimeOffset (Fin (real 2)) PInf 0))"
    using ri gi2 ai1 by simp
  moreover have "instanceTimeOffset (Fin (real 2)) PInf 0 = NaN"
    by (subst instanceTimeOffset_Fin) (simp_all add: double_examples js_mul_def)
  ultimately have ti: "recordTimeOffset li 0 = Some NaN" by simp
  show ?thesis using l a1 t3 l1 t1 li ai1 ti by simp
qed

lemma grid_cell_bound:
  fixes g i :: nat
  assumes g: "2 \<le> g" and i: "i \<le> g * g"
  shows "i div g + i mod g \<le> g * 2 - 2"
proof (cases "i = g * g")
  case True
  then show ?thesis using g by simp
next
  case False
  then have "i < g * g" using i by simp
  then have "i div g < g" by (simp add: less_mult_imp_div_less)
  moreover have "i mod g < g" using g by simp
  ultimately show ?thesis by linarith
qed

lemma scaled_duration:
  assumes q: "0 \<le> q" "q \<le> 1" and a: "toDouble a = Fin a"
  obtains v where "js_mul (Fin q) (Fin a) = Fin v"
    and "0 \<le> a \<Longrightarrow> 0 \<le> v \<and> v \<le> a" and "a \<le> 0 \<Longrightarrow> a \<le> v \<and> v \<le> 0"
proof (cases "0 \<le> a")
  case True
  have "0 \<le> q * a" using q(1) True by simp
  moreover have "q * a \<le> 1 * a" using q(2) True by (intro mult_right_mono) simp_all
  ultimately obtain v where "toDouble (q * a) = Fin v" "0 \<le> v" "v \<le> a"
    using toDouble_between [of 0 a "q * a"] a by auto
  then show ?thesis using that [of v] True by auto
next
  case False
  then have n: "a \<le> 0" by simp
  have "q * a \<le> 0" using q(1) n by (simp add: mult_le_0_iff)
  moreover have "1 * a \<le> q * a" using q(2) n by (intro mult_right_mono_neg) simp_all
  ultimately obtain v where "toDouble (q * a) = Fin v" "a \<le> v" "v \<le> 0"
    using toDouble_between [of a 0 "q * a"] a by auto
  then show ?thesis using that [of v] False by auto
qed

text \<open>
  C4, amended. With at least two instances and a finite animation duration
  \<open>animDuration = numFrames / fps\<close>, every instance record has a translation-only
  transform and a time offset between 0 and the duration converted to a single: the
  offset \<open>t\<close> satisfies \<open>0 \<le> t \<le> fround(animDuration)\<close> when the duration is not
  negative, and \<open>fround(animDuration) \<le> t \<le> 0\<close> when it is not positive.
\<close>

theorem instance_records_invariant:
  fixes cv sv nv fv :: jsnum
  assumes c: "instanceCountOf cv = Fin c" and c2: "2 \<le> c"
    and a: "js_div (js_or nv (Fin 24)) (js_or fv (Fin 24)) = Fin a"
    and i: "i < nat \<lfloor>c\<rfloor>"
  shows "\<exists>l x z t. instanceLayout cv sv nv fv = Inr l
           \<and> l_animDuration l = Fin a
           \<and> recordTransform l i = Matrix_Translation x (Fin 0) z
           \<and> recordTimeOffset l i = Some t
           \<and> (0 \<le> a \<longrightarrow> js_le (Fin 0) t \<and> js_le t (Math_fround (Fin a)))
           \<and> (a \<le> 0 \<longrightarrow> js_le (Math_fround (Fin a)) t \<and> js_le t (Fin 0))"
proof -
  from instanceCountOf_finite [of cv] c have cr: "1 \<le> c" "c \<le> 10000" by auto
  obtain g :: nat where gs: "Math_ceil (Math_sqrt (Fin c)) = Fin (real g)" and g100: "g \<le> 100"
    and sq: "c \<le> real (g * g) + 1" and g2: "2 \<le> g"
    using gridSize_cases [OF cr] c2 by blast
  obtain l where l: "instanceLayout cv sv nv fv = Inr l"
    and lg: "l_gridSize l = Math_ceil (Math_sqrt (Fin c))"
    and la: "l_animDuration l = js_div (js_or nv (Fin 24)) (js_or fv (Fin 24))"
    and r: "\<forall>k < nat \<lfloor>c\<rfloor>.
              recordTimeOffset l k =
                Some (Math_fround (instanceTimeOffset (l_gridSize l) (l_animDuration l) k))
            \<and> recordTransform l k =
                map Math_fround
                  (instanceMatrix (l_gridSize l) (l_spacing l)
                     (gridOffsetOf (l_gridSize l) (l_spacing l)) k)"
    using layout_records [OF c, of sv nv fv] by blast
  have ad: "l_animDuration l = Fin a" using la a by simp
  obtain x z where tr: "recordTransform l i = Matrix_Translation x (Fin 0) z"
    using r i instanceMatrix_shape by metis
  have ic: "real i < c" using i by linarith
  then have "real i < real (g * g) + 1" using sq by linarith
  then have "real i < real (g * g + 1)" by simp
  then have "i < g * g + 1" by (simp only: of_nat_less_iff)
  then have ig: "i \<le> g * g" by simp
  have i4: "i \<le> 10000" using ic cr(2) by linarith
  define s where "s = i div g + i mod g"
  define d where "d = g * 2 - 2"
  have sd: "s \<le> d" unfolding s_def d_def by (rule grid_cell_bound [OF g2 ig])
  have dpos: "0 < d" unfolding d_def using g2 by simp
  have q0: "0 \<le> real s / real d" by simp
  have q1: "real s / real d \<le> 1" using sd dpos by simp
  obtain q where q: "toDouble (real s / real d) = Fin q" and qb: "0 \<le> q" "q \<le> 1"
    using toDouble_between [of 0 1 "real s / real d"] q0 q1
    by (auto simp add: double_examples)
  have da: "toDouble a = Fin a" using a by (rule js_div_double)
  obtain v where v: "js_mul (Fin q) (Fin a) = Fin v"
    and vp: "0 \<le> a \<Longrightarrow> 0 \<le> v \<and> v \<le> a" and vn: "a \<le> 0 \<Longrightarrow> a \<le> v \<and> v \<le> 0"
    using scaled_duration [OF qb da] by blast
  have "instanceTimeOffset (Fin (real g)) (Fin a) i =
          js_mul (js_div (Fin (real s)) (Fin (real d))) (Fin a)"
    unfolding s_def d_def using g2 g100 i4 by (intro instanceTimeOffset_Fin) simp_all
  also have "\<dots> = Fin v" using dpos by (simp add: q v [simplified])
  finally have "recordTimeOffset l i = Some (toSingle v)"
    using r i lg gs ad by simp
  moreover have "0 \<le> a \<longrightarrow> js_le (Fin 0) (toSingle v) \<and> js_le (toSingle v) (Math_fround (Fin a))"
  proof
    assume "0 \<le> a"
    then have "0 \<le> v" "v \<le> a" using vp by simp_all
    then have "js_le (toSingle 0) (toSingle v)" "js_le (toSingle v) (toSingle a)"
      using toSingle_mono by blast+
    then show "js_le (Fin 0) (toSingle v) \<and> js_le (toSingle v) (Math_fround (Fin a))" by simp
  qed
  moreover have "a \<le> 0 \<longrightarrow> js_le (Math_fround (Fin a)) (toSingle v) \<and> js_le (toSingle v) (Fin 0)"
  proof
    assume "a \<le> 0"
    then have "a \<le> v" "v \<le> 0" using vn by simp_all
    then have "js_le (toSingle a) (toSingle v)" "js_le (toSingle v) (toSingle 0)"
      using toSingle_mono by blast+
    then show "js_le (Math_fround (Fin a)) (toSingle v) \<and> js_le (toSingle v) (Fin 0)" by simp
  qed
  ultimately show ?thesis using l ad tr by blast
qed

theorem instance_records_invariant_witness:
  "instanceCountOf (Fin 100) = Fin 100 \<and> (2::real) \<le> 100
   \<and> js_div (js_or (Fin 48) (Fin 24)) (js_or (Fin 24) (Fin 24)) = Fin 2
   \<and> (99::nat) < nat \<lfloor>100::real\<rfloor>
   \<and> (\<exists>l x z t. instanceLayout (Fin 100) (Fin 3) (Fin 48) (Fin 24) = Inr l
           \<and> l_animDuration l = Fin 2
           \<and> recordTransform l 99 = Matrix_Translation x (Fin 0) z
           \<and> recordTimeOffset l 99 = Some t \<and> js_le (Fin 0) t \<and> js_le t (Fin 2))"
proof -
  have h1: "instanceCountOf (Fin 100) = Fin 100" by (simp add: instanceCountOf_cases)
  have h2: "(2::real) \<le> 100" by simp
  have h3: "js_div (js_or (Fin 48) (Fin 24)) (js_or (Fin 24) (Fin 24)) = Fin 2"
    by (simp add: js_or_def js_truthy_def double_examples)
  have h4: "(99::nat) < nat \<lfloor>100::real\<rfloor>" by simp
  have s2: "toSingle 2 = Fin 2" using toSingle_int [of 2] by simp
  show ?thesis
    using h1 h2 h3 h4 instance_records_invariant [OF h1 h2 h3 h4, of "Fin 3"]
    by (simp add: s2)
qed


lemma double_ten_thirds: "toDouble (100 / 30) = Fin (7505999378950827 / 2 ^ 51)"
proof -
  have a: "(2::real) powi 1 \<le> \<bar>100 / 30\<bar>" by simp
  have b: "\<bar>100 / 30\<bar> < (2::real) powi (1 + 1)" by simp
  have c: "rne ((100 / 30) / 2 powi (max (- 1022) 1 - int 53 + 1)) = 7505999378950827"
    by (rule rne_eval) (simp_all add: power_int_minus)
  show ?thesis
    unfolding toDouble_def
    using toFloat_eval [OF a b c, of 1023] by (simp add: power_int_minus)
qed

lemma single_ten_thirds: "toSingle (7505999378950827 / 2 ^ 51) = Fin (13981013 / 2 ^ 22)"
proof -
  have a: "(2::real) powi 1 \<le> \<bar>7505999378950827 / 2 ^ 51\<bar>" by simp
  have b: "\<bar>7505999378950827 / 2 ^ 51\<bar> < (2::real) powi (1 + 1)" by simp
  have c: "rne ((7505999378950827 / 2 ^ 51) / 2 powi (max (- 126) 1 - int 24 + 1)) = 13981013"
    by (rule rne_eval) (simp_all add: power_int_minus)
  show ?thesis
    unfolding toSingle_def
    using toFloat_eval [OF a b c, of 127] by (simp add: power_int_minus)
qed

lemma cell_coordinate:
  assumes "k < 10"
  shows "Math_fround (js_sub (js_mul (Fin (real k)) (Fin 3)) (Fin (27 / 2)))
           = Fin (3 * real k - 27 / 2)"
proof -
  have "toDouble (real (k * 3)) = Fin (real (k * 3))" using assms by (intro toDouble_nat) simp
  then have m: "js_mul (Fin (real k)) (Fin 3) = Fin (real k * 3)" by simp
  have e: "real k * 3 - 27 / 2 = real_of_int (6 * int k - 27) / 2 ^ 1" by simp
  have "toDouble (real_of_int (6 * int k - 27) / 2 ^ 1) = Fin (real_of_int (6 * int k - 27) / 2 ^ 1)"
    using assms by (intro toDouble_dyadic) simp_all
  then have d: "js_sub (Fin (real k * 3)) (Fin (27 / 2)) = Fin (real_of_int (6 * int k - 27) / 2 ^ 1)"
    by (simp only: js_arith_Fin e)
  have "toSingle (real_of_int (6 * int k - 27) / 2 ^ 1) = Fin (real_of_int (6 * int k - 27) / 2 ^ 1)"
    using assms by (intro toSingle_dyadic) simp_all
  then show ?thesis unfolding m d by simp
qed

lemma gridOffset_10_3: "gridOffsetOf (Fin 10) (Fin 3) = Fin (27 / 2)"
  by (simp add: gridOffsetOf_def double_examples)

lemma layout_100_records:
  obtains l where "instanceLayout (Fin 100) (Fin 3) nv fv = Inr l"
    and "l_gridSize l = Fin 10" and "length (l_timeOffsets l) = 100"
    and "l_animDuration l = js_div (js_or nv (Fin 24)) (js_or fv (Fin 24))"
    and "\<And>i. i < 100 \<Longrightarrow>
           recordTransform l i =
             Matrix_Translation (Fin (3 * real (i mod 10) - 27 / 2)) (Fin 0)
               (Fin (3 * real (i div 10) - 27 / 2))"
    and "recordTimeOffset l 99 = Some (Math_fround (l_animDuration l))"
proof -
  have c: "instanceCountOf (Fin 100) = Fin 100" by (simp add: instanceCountOf_cases)
  obtain l where l: "instanceLayout (Fin 100) (Fin 3) nv fv = Inr l"
    and g: "l_gridSize l = Math_ceil (Math_sqrt (Fin 100))"
    and s: "l_spacing l = js_or (Fin 3) (Fin 3)"
    and a: "l_animDuration l = js_div (js_or nv (Fin 24)) (js_or fv (Fin 24))"
    and n: "length (l_timeOffsets l) = nat \<lfloor>100::real\<rfloor>"
    and r: "\<forall>k < nat \<lfloor>100::real\<rfloor>.
              recordTimeOffset l k =
                Some (Math_fround (instanceTimeOffset (l_gridSize l) (l_animDuration l) k))
            \<and> recordTransform l k =
                map Math_fround
                  (instanceMatrix (l_gridSize l) (l_spacing l)
                     (gridOffsetOf (l_gridSize l) (l_spacing l)) k)"
    using layout_records [OF c, of "Fin 3" nv fv] by blast
  have g10: "l_gridSize l = Fin (real 10)" using g by (simp add: sqrt_100 double_examples)
  have s3: "l_spacing l = Fin 3" using s by (simp add: js_or_def js_truthy_def)
  have one: "toSingle 1 = Fin 1" using toSingle_int [of 1] by simp
  have tr: "recordTransform l i =
              Matrix_Translation (Fin (3 * real (i mod 10) - 27 / 2)) (Fin 0)
                (Fin (3 * real (i div 10) - 27 / 2))" if i: "i < 100" for i
  proof -
    have i53: "i < 2 ^ 53" using i by simp
    have rw: "i div 10 < 10" and cl: "i mod 10 < 10" using i by simp_all
    have row: "Math_floor (js_div (Fin (real i)) (Fin 10)) = Fin (real (i div 10))"
      using js_row [of 10 i] i53 by simp
    have col: "js_rem (Fin (real i)) (Fin 10) = Fin (real (i mod 10))"
      using js_col [of 10 i] by simp
    have im: "instanceMatrix (Fin 10) (Fin 3) (Fin (27 / 2)) i =
            Matrix_Translation
              (js_sub (js_mul (Fin (real (i mod 10))) (Fin 3)) (Fin (27 / 2))) (Fin 0)
              (js_sub (js_mul (Fin (real (i div 10))) (Fin 3)) (Fin (27 / 2)))"
      by (simp only: instanceMatrix_def Let_def row col)
    have "recordTransform l i =
            map Math_fround (instanceMatrix (Fin 10) (Fin 3) (gridOffsetOf (Fin 10) (Fin 3)) i)"
      using r i g10 s3 by simp
    also have "\<dots> = Matrix_Translation
                       (Math_fround (js_sub (js_mul (Fin (real (i mod 10))) (Fin 3)) (Fin (27 / 2))))
                       (Fin 0)
                       (Math_fround (js_sub (js_mul (Fin (real (i div 10))) (Fin 3)) (Fin (27 / 2))))"
      unfolding gridOffset_10_3 im by (simp add: Matrix_Translation_def one)
    finally show ?thesis by (simp only: cell_coordinate [OF rw] cell_coordinate [OF cl])
  qed
  have "recordTimeOffset l 99 =
          Some (Math_fround (instanceTimeOffset (Fin (real 10)) (l_animDuration l) 99))"
    using r g10 by simp
  moreover have "instanceTimeOffset (Fin (real 10)) (l_animDuration l) 99 = l_animDuration l"
    using js_mul_one_double [OF a [symmetric]]
    by (subst instanceTimeOffset_Fin) (simp_all add: double_examples)
  ultimately have "recordTimeOffset l 99 = Some (Math_fround (l_animDuration l))" by simp
  then show ?thesis using that [of l] l g10 n a tr by simp
qed

text \<open>
  C5, as stated, fails on the time offset: with 100 frames and 30 frames per second
  the animation lasts the double nearest to \<open>10 / 3\<close>, and the time offset of the
  instance at row 9, column 9 is that duration converted to a single, a different
  number.
\<close>

theorem last_timeOffset_not_animDuration:
  "\<not> isl (instanceLayout (Fin 100) (Fin 3) (Fin 100) (Fin 30))
   \<and> l_animDuration (projr (instanceLayout (Fin 100) (Fin 3) (Fin 100) (Fin 30)))
       = Fin (7505999378950827 / 2 ^ 51)
   \<and> recordTimeOffset (projr (instanceLayout (Fin 100) (Fin 3) (Fin 100) (Fin 30))) 99
       = Some (Fin (13981013 / 2 ^ 22))
   \<and> recordTimeOffset (projr (instanceLayout (Fin 100) (Fin 3) (Fin 100) (Fin 30))) 99
       \<noteq> Some (l_animDuration (projr (instanceLayout (Fin 100) (Fin 3) (Fin 100) (Fin 30))))"
proof -
  obtain l where l: "instanceLayout (Fin 100) (Fin 3) (Fin 100) (Fin 30) = Inr l"
    and a: "l_animDuration l = js_div (js_or (Fin 100) (Fin 24)) (js_or (Fin 30) (Fin 24))"
    and o: "recordTimeOffset l 99 = Some (Math_fround (l_animDuration l))"
    using layout_100_records [of "Fin 100" "Fin 30"] by blast
  have a1: "l_animDuration l = Fin (7505999378950827 / 2 ^ 51)"
    using a double_ten_thirds by (simp add: js_or_def js_truthy_def)
  have "recordTimeOffset l 99 = Some (Fin (13981013 / 2 ^ 22))"
    using o single_ten_thirds by (simp add: a1)
  then show ?thesis using l a1 by simp
qed

text \<open>
  C5, amended. With count = 100 and spacing = 3 the grid size is 10, instance \<open>i\<close> is
  translated to \<open>x = 3 * (i mod 10) - 13.5\<close>, \<open>y = 0\<close>, \<open>z = 3 * (i div 10) - 13.5\<close> (so
  x and z run from -13.5 to 13.5 in steps of 3), and the time offset of the instance at
  row 9, column 9 is the animation duration converted to a single.
\<close>

theorem layout_100_by_3:
  "\<exists>l. instanceLayout (Fin 100) (Fin 3) nv fv = Inr l
     \<and> l_gridSize l = Fin 10
     \<and> length (l_timeOffsets l) = 100
     \<and> (\<forall>i<100. recordTransform l i =
           Matrix_Translation (Fin (3 * real (i mod 10) - 13.5)) (Fin 0)
             (Fin (3 * real (i div 10) - 13.5)))
     \<and> l_animDuration l = js_div (js_or nv (Fin 24)) (js_or fv (Fin 24))
     \<and> recordTimeOffset l 99 = Some (Math_fround (l_animDuration l))"
proof -
  obtain l where "instanceLayout (Fin 100) (Fin 3) nv fv = Inr l"
    and "l_gridSize l = Fin 10" and "length (l_timeOffsets l) = 100"
    and "l_animDuration l = js_div (js_or nv (Fin 24)) (js_or fv (Fin 24))"
    and "\<And>i. i < 100 \<Longrightarrow>
           recordTransform l i =
             Matrix_Translation (Fin (3 * real (i mod 10) - 27 / 2)) (Fin 0)
               (Fin (3 * real (i div 10) - 27 / 2))"
    and "recordTimeOffset l 99 = Some (Math_fround (l_animDuration l))"
    using layout_100_records [of nv fv] by blast
  then show ?thesis by simp
qed

theorem layout_100_by_3_witness:
  "\<not> isl (instanceLayout (Fin 100) (Fin 3) (Fin 48) (Fin 24))
   \<and> l_gridSize (projr (instanceLayout (Fin 100) (Fin 3) (Fin 48) (Fin 24))) = Fin 10
   \<and> recordTransform (projr (instanceLayout (Fin 100) (Fin 3) (Fin 48) (Fin 24))) 0
       = Matrix_Translation (Fin (- 13.5)) (Fin 0) (Fin (- 13.5))
   \<and> recordTransform (projr (instanceLayout (Fin 100) (Fin 3) (Fin 48) (Fin 24))) 1
       = Matrix_Translation (Fin (- 10.5)) (Fin 0) (Fin (- 13.5))
   \<and> recordTransform (projr (instanceLayout (Fin 100) (Fin 3) (Fin 48) (Fin 24))) 99
       = Matrix_Translation (Fin 13.5) (Fin 0) (Fin 13.5)
   \<and> recordTimeOffset (projr (instanceLayout (Fin 100) (Fin 3) (Fin 48) (Fin 24))) 99
       = Some (Fin 2)"
proof -
  obtain l where l: "instanceLayout (Fin 100) (Fin 3) (Fin 48) (Fin 24) = Inr l"
    and g: "l_gridSize l = Fin 10"
    and t: "\<forall>i<100. recordTransform l i =
           Matrix_Translation (Fin (3 * real (i mod 10) - 13.5)) (Fin 0)
             (Fin (3 * real (i div 10) - 13.5))"
    and a: "l_animDuration l = js_div (js_or (Fin 48) (Fin 24)) (js_or (Fin 24) (Fin 24))"
    and o: "recordTimeOffset l 99 = Some (Math_fround (l_animDuration l))"
    using layout_100_by_3 [of "Fin 48" "Fin 24"] by blast
  have t0: "recordTransform l 0 = Matrix_Translation (Fin (- 13.5)) (Fin 0) (Fin (- 13.5))"
    using t [rule_format, of 0] by simp
  have t1: "recordTransform l 1 = Matrix_Translation (Fin (- 10.5)) (Fin 0) (Fin (- 13.5))"
    using t [rule_format, of 1] by simp
  have t99: "recordTransform l 99 = Matrix_Translation (Fin 13.5) (Fin 0) (Fin 13.5)"
    using t [rule_format, of 99] by simp
  have "l_animDuration l = Fin 2" using a by (simp add: js_or_def js_truthy_def double_examples)
  with o have "recordTimeOffset l 99 = Some (Fin 2)"
    using toSingle_int [of 2] by simp
  with l g t0 t1 t99 show ?thesis by simp
qed

section \<open>Properties of the player\<close>

lemma setVatTime_fields [simp]:
  "vatTime (setVatTime r t s) = vatTime s"
  "vatMaterial (setVatTime r t s) = vatMaterial s"
  "vatMaterialInstanced (setVatTime r t s) = vatMaterialInstanced s"
  "isPlaying (setVatTime r t s) = isPlaying s"
  by (simp_all add: setVatTime_def split: option.splits)

lemma setVatTime_speed:
  "setVatTime r t (s\<lparr>speedValue := v\<rparr>) = (setVatTime r t s)\<lparr>speedValue := v\<rparr>"
  by (simp add: setVatTime_def split: option.splits)

lemma js_mul_one_right:
  "js_mul (toDouble x) (Fin 1) = toDouble x"
proof (cases "toDouble x")
  case (Fin a)
  then have "toDouble a = Fin a" by (rule toDouble_idem)
  then show ?thesis using Fin by simp
qed (simp_all add: js_mul_def js_inf_def)

lemma js_add_finite_not_NaN: "js_add (Fin t) (toDouble x) \<noteq> NaN"
  by (cases "toDouble x") (simp_all add: js_add_def)

text \<open>
  C10. On a render tick while playing, a speed control that reads as 0 or as NaN makes
  the clock advance with the speed 1: the tick leaves the state it leaves with the
  speed 1, the new time is the sum, in the arithmetic of doubles, of the old time and
  the elapsed seconds, and it is not NaN when the old time is finite.
\<close>

theorem renderTick_speed_fallback:
  assumes "isPlaying s" and "speedValue s = Fin 0 \<or> speedValue s = NaN"
  shows "renderTick deltaTime s
           = (renderTick deltaTime (s\<lparr>speedValue := Fin 1\<rparr>))\<lparr>speedValue := speedValue s\<rparr>
       \<and> vatTime (renderTick deltaTime s)
           = js_add (vatTime s) (js_div (Fin deltaTime) (Fin 1000))
       \<and> (\<forall>t. vatTime s = Fin t \<longrightarrow> vatTime (renderTick deltaTime s) \<noteq> NaN)"
proof -
  have sp: "js_or (speedValue s) (Fin 1) = Fin 1"
    using assms(2) by (auto simp add: js_or_def js_truthy_def)
  have sp1: "js_or (Fin 1) (Fin 1) = Fin 1" by (simp add: js_or_def js_truthy_def)
  have d: "js_div (Fin deltaTime) (Fin 1000) = toDouble (deltaTime / 1000)" by simp
  have a: "renderTick deltaTime s
           = (renderTick deltaTime (s\<lparr>speedValue := Fin 1\<rparr>))\<lparr>speedValue := speedValue s\<rparr>"
    using assms(1)
    by (auto simp add: renderTick_def Let_def sp sp1 setVatTime_def split: option.splits)
  have "vatTime (renderTick deltaTime s) =
          js_add (vatTime s) (js_mul (js_div (Fin deltaTime) (Fin 1000)) (Fin 1))"
    using assms(1) by (simp add: renderTick_def Let_def sp del: js_arith_Fin)
  then have b: "vatTime (renderTick deltaTime s)
                  = js_add (vatTime s) (js_div (Fin deltaTime) (Fin 1000))"
    by (simp only: d js_mul_one_right)
  have c: "\<forall>t. vatTime s = Fin t \<longrightarrow> vatTime (renderTick deltaTime s) \<noteq> NaN"
    unfolding b d by (simp add: js_add_finite_not_NaN del: js_arith_Fin)
  from a b c show ?thesis by blast
qed

theorem renderTick_speed_fallback_witness:
  "isPlaying (initialPlayer\<lparr>isPlaying := True, speedValue := NaN, vatTime := Fin 2\<rparr>)
   \<and> vatTime (renderTick 500 (initialPlayer\<lparr>isPlaying := True, speedValue := NaN, vatTime := Fin 2\<rparr>))
       = Fin (5 / 2)
   \<and> vatTime (renderTick 500 (initialPlayer\<lparr>isPlaying := True, speedValue := Fin 0, vatTime := Fin 2\<rparr>))
       = Fin (5 / 2)
   \<and> vatTime (renderTick 500 (initialPlayer\<lparr>isPlaying := True, speedValue := Fin 1, vatTime := Fin 2\<rparr>))
       = Fin (5 / 2)"
proof -
  let ?n = "initialPlayer\<lparr>isPlaying := True, speedValue := NaN, vatTime := Fin 2\<rparr>"
  let ?z = "initialPlayer\<lparr>isPlaying := True, speedValue := Fin 0, vatTime := Fin 2\<rparr>"
  have h: "toDouble (1 / 2) = Fin (1 / 2)" "toDouble (5 / 2) = Fin (5 / 2)"
    using toDouble_dyadic [of 1 1] toDouble_dyadic [of 5 1] by simp_all
  have pn: "isPlaying ?n" "speedValue ?n = Fin 0 \<or> speedValue ?n = NaN" by simp_all
  have pz: "isPlaying ?z" "speedValue ?z = Fin 0 \<or> speedValue ?z = NaN" by simp_all
  have "vatTime (renderTick 500 ?n) = js_add (vatTime ?n) (js_div (Fin 500) (Fin 1000))"
    by (rule renderTick_speed_fallback [OF pn, THEN conjunct2, THEN conjunct1])
  then have n: "vatTime (renderTick 500 ?n) = Fin (5 / 2)" by (simp add: h)
  have "vatTime (renderTick 500 ?z) = js_add (vatTime ?z) (js_div (Fin 500) (Fin 1000))"
    by (rule renderTick_speed_fallback [OF pz, THEN conjunct2, THEN conjunct1])
  then have z: "vatTime (renderTick 500 ?z) = Fin (5 / 2)" by (simp add: h)
  have one: "vatTime (renderTick 500
               (initialPlayer\<lparr>isPlaying := True, speedValue := Fin 1, vatTime := Fin 2\<rparr>))
             = Fin (5 / 2)"
    by (simp add: renderTick_def Let_def js_or_def js_truthy_def h)
  from pn(1) n z one show ?thesis by blast
qed

text \<open>
  C8. When the selected mesh has no UV2 channel, applyVat only sets the status to a
  validation message (the missing-UV2 message when a position texture is loaded) and
  changes nothing else: no material is created or assigned, and the playback time, the
  playing flag and the current mesh are as before.
\<close>

theorem applyVat_without_UV2:
  assumes "findMesh (meshSelectValue s) (meshes s) = Some m" and "\<not> hasUV2 m"
  shows "applyVat s =
           s\<lparr>statusEl := (if positionTexture s = None then LoadPositionTextureFirst
                          else MeshHasNoUV2)\<rparr>
       \<and> vatMaterial (applyVat s) = vatMaterial s
       \<and> vatMaterialInstanced (applyVat s) = vatMaterialInstanced s
       \<and> materials (applyVat s) = materials s
       \<and> meshes (applyVat s) = meshes s
       \<and> originalMaterials (applyVat s) = originalMaterials s
       \<and> vatTime (applyVat s) = vatTime s
       \<and> isPlaying (applyVat s) = isPlaying s
       \<and> currentVatMesh (applyVat s) = currentVatMesh s"
proof -
  have "applyVat s =
          s\<lparr>statusEl := (if positionTexture s = None then LoadPositionTextureFirst
                         else MeshHasNoUV2)\<rparr>"
    using assms by (simp add: applyVat_def setStatus_def split: option.splits)
  then show ?thesis by simp
qed

theorem applyVat_without_UV2_witness:
  "findMesh (meshSelectValue (examplePlayer False)) (meshes (examplePlayer False))
     = Some (exampleMesh False)
   \<and> \<not> hasUV2 (exampleMesh False)
   \<and> applyVat (examplePlayer False) = (examplePlayer False)\<lparr>statusEl := MeshHasNoUV2\<rparr>
   \<and> vatMaterial (applyVat (examplePlayer False)) = None
   \<and> meshes (applyVat (examplePlayer False)) = [exampleMesh False]
   \<and> vatTime (applyVat (examplePlayer False)) = Fin 0
   \<and> isPlaying (applyVat (examplePlayer False)) = False
   \<and> currentVatMesh (applyVat (examplePlayer False)) = None"
proof -
  have h1: "findMesh (meshSelectValue (examplePlayer False)) (meshes (examplePlayer False))
     = Some (exampleMesh False)"
    by (simp add: examplePlayer_def initialPlayer_def exampleMesh_def findMesh_def)
  have h2: "\<not> hasUV2 (exampleMesh False)" by (simp add: exampleMesh_def)
  show ?thesis
    using h1 h2 applyVat_without_UV2 [OF h1 h2]
    by (simp add: examplePlayer_def initialPlayer_def)
qed

lemma instanceLayout_total:
  "\<exists>l. instanceLayout cv sv nv fv = Inr l"
proof -
  obtain c where "instanceCountOf cv = Fin c" using instanceCountOf_finite by blast
  from layout_records [OF this, of sv nv fv] show ?thesis by blast
qed

lemma updateMesh_fields [simp]:
  "vatMaterial (updateMesh i f s) = vatMaterial s"
  "vatMaterialInstanced (updateMesh i f s) = vatMaterialInstanced s"
  "materials (updateMesh i f s) = materials s"
  "nextMaterialId (updateMesh i f s) = nextMaterialId s"
  "positionTexture (updateMesh i f s) = positionTexture s"
  "currentVatMesh (updateMesh i f s) = currentVatMesh s"
  "instancedModeChecked (updateMesh i f s) = instancedModeChecked s"
  "numFramesValue (updateMesh i f s) = numFramesValue s"
  "fpsValue (updateMesh i f s) = fpsValue s"
  "originalMaterials (updateMesh i f s) = originalMaterials s"
  by (simp_all add: updateMesh_def)

lemma setStatus_fields [simp]:
  "vatMaterial (setStatus m s) = vatMaterial s"
  "materials (setStatus m s) = materials s"
  "statusEl (setStatus m s) = m"
  by (simp_all add: setStatus_def)

lemma disposeMaterial_fields [simp]:
  "vatMaterial (disposeMaterial r s) = vatMaterial s"
  "nextMaterialId (disposeMaterial r s) = nextMaterialId s"
  "materials (disposeMaterial r s) i = (if r = Some i then None else materials s i)"
  by (auto simp add: disposeMaterial_def split: option.splits)

lemma applyInstancing_True:
  "\<exists>s'. applyInstancing True s = Inr s' \<and> vatMaterial s' = vatMaterial s
        \<and> (\<forall>i. vatMaterialInstanced s \<noteq> Some i \<longrightarrow> i \<noteq> nextMaterialId s
               \<longrightarrow> materials s' i = materials s i)"
proof -
  obtain l where l: "instanceLayout (instanceCountValue s) (instanceSpacingValue s)
                       (numFramesValue s) (fpsValue s) = Inr l"
    using instanceLayout_total by blast
  show ?thesis
  proof (cases "\<exists>a b c. currentVatMesh s = Some a \<and> vatMaterial s = Some b \<and> positionTexture s = Some c")
    case True
    then obtain a b c where t: "currentVatMesh s = Some a" "vatMaterial s = Some b"
      "positionTexture s = Some c" by blast
    show ?thesis
      unfolding applyInstancing_def using t l
      by (simp add: Let_def disposeMaterial_def updateMesh_def setStatus_def split: option.splits)
  next
    case False
    then have "applyInstancing True s = Inr s"
      by (auto simp add: applyInstancing_def split: option.splits)
    then show ?thesis by simp
  qed
qed

lemma stage_fields [simp]:
  "nextMaterialId (stopAnimations i s) = nextMaterialId s"
  "vatMaterialInstanced (stopAnimations i s) = vatMaterialInstanced s"
  "numFramesValue (stopAnimations i s) = numFramesValue s"
  "fpsValue (stopAnimations i s) = fpsValue s"
  "instancedModeChecked (stopAnimations i s) = instancedModeChecked s"
  "nextMaterialId (storeOriginalMaterial m s) = nextMaterialId s"
  "vatMaterialInstanced (storeOriginalMaterial m s) = vatMaterialInstanced s"
  "numFramesValue (storeOriginalMaterial m s) = numFramesValue s"
  "fpsValue (storeOriginalMaterial m s) = fpsValue s"
  "instancedModeChecked (storeOriginalMaterial m s) = instancedModeChecked s"
  by (simp_all add: stopAnimations_def storeOriginalMaterial_def)

lemma vatShaderMaterial_numFrames [simp]:
  "sm_numFrames (vatShaderMaterial posTex diffuseTex s) = js_or (numFramesValue s) (Fin 24)"
  by (simp add: vatShaderMaterial_def Let_def)

lemma roundTo_underflow:
  assumes "\<bar>x\<bar> < 2 powi (emin - int p)"
  shows "roundTo p emin x = 0"
proof (cases "x = 0")
  case True
  then show ?thesis by simp
next
  case False
  have "2 powi \<lfloor>log 2 \<bar>x\<bar>\<rfloor> \<le> \<bar>x\<bar>" by (rule exponent_bounds(1) [OF False])
  then have "(2::real) powi \<lfloor>log 2 \<bar>x\<bar>\<rfloor> < 2 powi (emin - int p)" using assms by linarith
  then have "\<lfloor>log 2 \<bar>x\<bar>\<rfloor> < emin - int p"
    by (metis linorder_not_le one_le_numeral power_int_increasing linorder_not_less)
  then have b: "binade emin x = emin" by (simp add: binade_def)
  define u where "u = (2::real) powi (emin - int p + 1)"
  have up: "0 < u" by (simp add: u_def)
  have "(2::real) powi (emin - int p + 1) = 2 powi (emin - int p) * 2 powi 1"
    by (rule power_int_add) simp
  then have h: "2 powi (emin - int p) = u / 2" by (simp add: u_def)
  have "\<bar>x\<bar> < u / 2" using assms by (simp only: h)
  then have lt: "\<bar>x\<bar> / u < 1 / 2" using up by (simp add: pos_divide_less_eq)
  have au: "\<bar>u\<bar> = u" using up by simp
  have ax: "\<bar>x / u\<bar> = \<bar>x\<bar> / u" by (simp only: abs_divide au)
  have b2: "\<bar>x / u\<bar> < 1 / 2" using lt by (simp only: ax)
  have "- (1 / 2) < x / u" and "x / u < 1 / 2" using b2 by linarith+
  then have "of_int 0 - 1 / 2 < x / u" and "x / u < of_int 0 + 1 / 2" by simp_all
  then have "rne (x / u) = 0" by (rule rne_eval)
  then show ?thesis using False by (simp add: roundTo_def Let_def b u_def)
qed

lemma single_tiny: "toSingle (1 / 2 ^ 200) = Fin 0"
proof -
  have "\<bar>1 / 2 ^ 200\<bar> < (2::real) powi (- 126 - int 24)" by (simp add: power_int_minus field_simps)
  then have "roundTo 24 (- 126) (1 / 2 ^ 200) = 0" by (rule roundTo_underflow)
  then show ?thesis by (simp add: toSingle_def toFloat_def)
qed

lemmas player_eval_defs =
  applyVat_def examplePlayer_def initialPlayer_def exampleMesh_def findMesh_def setStatus_def
  stopAnimations_def storeOriginalMaterial_def originalDiffuseTex_def diffuseTexOf_def
  vatShaderMaterial_def shaderUniforms_def updateMesh_def flag_def js_or_def js_truthy_def Let_def

text \<open>
  C7, as stated, fails: applyVat has no validation of the frame count. With -5 in the
  control it reports success and the material and the shader get -5; with 0 they get
  24, not a minimum of 1, and no failure is reported either; and with the positive
  double \<open>1 / 2\<^sup>2\<^sup>0\<^sup>0\<close> the material keeps it and the shader, whose uniform is a single,
  gets 0.
\<close>

theorem applyVat_accepts_invalid_numFrames:
  "statusEl (applyVat ((examplePlayer True)\<lparr>numFramesValue := Fin (- 5)\<rparr>))
     = VatApplied 7 (Fin (- 5)) (Fin 24)
   \<and> vatMaterial (applyVat ((examplePlayer True)\<lparr>numFramesValue := Fin (- 5)\<rparr>)) = Some 0
   \<and> map_option sm_numFrames
         (materials (applyVat ((examplePlayer True)\<lparr>numFramesValue := Fin (- 5)\<rparr>)) 0)
     = Some (Fin (- 5))
   \<and> map_option (\<lambda>m. u_numFrames (shaderUniforms m))
         (materials (applyVat ((examplePlayer True)\<lparr>numFramesValue := Fin (- 5)\<rparr>)) 0)
     = Some (Fin (- 5))
   \<and> statusEl (applyVat ((examplePlayer True)\<lparr>numFramesValue := Fin 0\<rparr>))
     = VatApplied 7 (Fin 24) (Fin 24)
   \<and> map_option sm_numFrames
         (materials (applyVat ((examplePlayer True)\<lparr>numFramesValue := Fin 0\<rparr>)) 0)
     = Some (Fin 24)
   \<and> statusEl (applyVat ((examplePlayer True)\<lparr>numFramesValue := Fin (1 / 2 ^ 200)\<rparr>))
     = VatApplied 7 (Fin (1 / 2 ^ 200)) (Fin 24)
   \<and> map_option (\<lambda>m. u_numFrames (shaderUniforms m))
         (materials (applyVat ((examplePlayer True)\<lparr>numFramesValue := Fin (1 / 2 ^ 200)\<rparr>)) 0)
     = Some (Fin 0)"
  using toSingle_int [of "- 5"] single_tiny
  by (simp add: player_eval_defs)

text \<open>
  C7, amended. applyVat has no validation of numFrames: a value that reads as 0 or NaN
  is silently replaced by the default 24, any other value (a negative one too) is given
  to the material unchanged, the shader reads it converted to a single, and the status
  is the success message.
\<close>

theorem applyVat_numFrames_default:
  assumes tex: "positionTexture s = Some tex"
    and m: "findMesh (meshSelectValue s) (meshes s) = Some m" and uv2: "hasUV2 m"
    and alloc: "instancedMaterialAllocated s"
  shows "\<exists>mat. vatMaterial (applyVat s) = Some (nextMaterialId s)
           \<and> materials (applyVat s) (nextMaterialId s) = Some mat
           \<and> sm_numFrames mat = js_or (numFramesValue s) (Fin 24)
           \<and> u_numFrames (shaderUniforms mat) = Math_fround (js_or (numFramesValue s) (Fin 24))
           \<and> (numFramesValue s = Fin 0 \<or> numFramesValue s = NaN \<longrightarrow>
                sm_numFrames mat = Fin 24 \<and> u_numFrames (shaderUniforms mat) = Fin 24)
           \<and> (\<forall>x. x \<noteq> 0 \<longrightarrow> numFramesValue s = Fin x \<longrightarrow>
                sm_numFrames mat = Fin x \<and> u_numFrames (shaderUniforms mat) = toSingle x)
           \<and> statusEl (applyVat s) =
               VatApplied (uniqueId m) (js_or (numFramesValue s) (Fin 24))
                 (js_or (fpsValue s) (Fin 24))"
proof -
  let ?mid = "nextMaterialId s"
  define s2 where "s2 = storeOriginalMaterial m (stopAnimations (uniqueId m) s)"
  define mid where "mid = nextMaterialId s2"
  define mat where "mat = vatShaderMaterial tex (originalDiffuseTex (uniqueId m) s2) s2"
  define s3 where "s3 =
      (updateMesh (uniqueId m) (\<lambda>m. m\<lparr>material := Some (ShaderMaterialRef mid)\<rparr>)
         (s2\<lparr>vatMaterial := Some mid, nextMaterialId := Suc mid,
              materials := (materials s2)(mid \<mapsto> mat)\<rparr>))
         \<lparr>vatTime := Fin 0, isPlaying := False, currentVatMesh := Some (uniqueId m)\<rparr>"
  have av: "applyVat s =
     (case (if instancedModeChecked s3 then applyInstancing True s3 else Inr s3) of
        Inl (e, s') \<Rightarrow> setStatus (FailedToApplyVat e) s'
      | Inr s' \<Rightarrow> setStatus (VatApplied (uniqueId m) (js_or (numFramesValue s3) (Fin 24))
                     (js_or (fpsValue s3) (Fin 24))) s')"
    by (simp only: applyVat_def tex m uv2 option.case Let_def s3_def mid_def mat_def s2_def
        not_True_eq_False if_False)
  have f2: "mid = ?mid" "numFramesValue s2 = numFramesValue s"
    "fpsValue s2 = fpsValue s" "vatMaterialInstanced s2 = vatMaterialInstanced s"
    "instancedModeChecked s2 = instancedModeChecked s"
    by (simp_all add: s2_def mid_def)
  have f3: "vatMaterial s3 = Some ?mid" "materials s3 ?mid = Some mat"
    "nextMaterialId s3 = Suc ?mid" "vatMaterialInstanced s3 = vatMaterialInstanced s"
    "numFramesValue s3 = numFramesValue s" "fpsValue s3 = fpsValue s"
    by (simp_all add: s3_def f2)
  have ne: "vatMaterialInstanced s3 \<noteq> Some ?mid"
    using alloc by (auto simp add: f3 instancedMaterialAllocated_def split: option.splits)
  obtain s4 where s4: "(if instancedModeChecked s3 then applyInstancing True s3 else Inr s3) = Inr s4"
    and v4: "vatMaterial s4 = Some ?mid" and m4: "materials s4 ?mid = Some mat"
  proof (cases "instancedModeChecked s3")
    case True
    obtain s' where a: "applyInstancing True s3 = Inr s'" and b: "vatMaterial s' = vatMaterial s3"
      and c: "\<forall>i. vatMaterialInstanced s3 \<noteq> Some i \<longrightarrow> i \<noteq> nextMaterialId s3
               \<longrightarrow> materials s' i = materials s3 i"
      using applyInstancing_True [of s3] by blast
    have "materials s' ?mid = materials s3 ?mid" using c ne f3(3) by simp
    then show ?thesis using that [of s'] True a b f3 by simp
  next
    case False
    then show ?thesis using that [of s3] f3 by simp
  qed
  have nf: "sm_numFrames mat = js_or (numFramesValue s) (Fin 24)" by (simp add: mat_def f2)
  have un: "u_numFrames (shaderUniforms mat) = Math_fround (js_or (numFramesValue s) (Fin 24))"
    by (simp add: shaderUniforms_def nf)
  have s24: "toSingle 24 = Fin 24" using toSingle_int [of 24] by simp
  have "vatMaterial (applyVat s) = Some ?mid" "materials (applyVat s) ?mid = Some mat"
    "statusEl (applyVat s) = VatApplied (uniqueId m) (js_or (numFramesValue s) (Fin 24))
                 (js_or (fpsValue s) (Fin 24))"
    unfolding av s4 using v4 m4 f3 by simp_all
  moreover have "numFramesValue s = Fin 0 \<or> numFramesValue s = NaN \<longrightarrow>
                   sm_numFrames mat = Fin 24 \<and> u_numFrames (shaderUniforms mat) = Fin 24"
    unfolding nf un by (auto simp add: js_or_def js_truthy_def s24)
  moreover have "\<forall>x. x \<noteq> 0 \<longrightarrow> numFramesValue s = Fin x \<longrightarrow>
                   sm_numFrames mat = Fin x \<and> u_numFrames (shaderUniforms mat) = toSingle x"
    unfolding nf un by (auto simp add: js_or_def js_truthy_def)
  ultimately show ?thesis using nf un by blast
qed

theorem applyVat_numFrames_default_witness:
  "positionTexture ((examplePlayer True)\<lparr>numFramesValue := NaN, instancedModeChecked := True\<rparr>)
     = Some \<lparr> tex_id = 0, tex_width = 64, tex_height = 64 \<rparr>
   \<and> findMesh (meshSelectValue ((examplePlayer True)\<lparr>numFramesValue := NaN, instancedModeChecked := True\<rparr>))
        (meshes ((examplePlayer True)\<lparr>numFramesValue := NaN, instancedModeChecked := True\<rparr>))
     = Some (exampleMesh True)
   \<and> hasUV2 (exampleMesh True)
   \<and> instancedMaterialAllocated ((examplePlayer True)\<lparr>numFramesValue := NaN, instancedModeChecked := True\<rparr>)
   \<and> vatMaterial (applyVat ((examplePlayer True)\<lparr>numFramesValue := NaN, instancedModeChecked := True\<rparr>))
     = Some 0
   \<and> map_option sm_numFrames
         (materials (applyVat ((examplePlayer True)\<lparr>numFramesValue := NaN, instancedModeChecked := True\<rparr>)) 0)
     = Some (Fin 24)
   \<and> map_option (\<lambda>m. u_numFrames (shaderUniforms m))
         (materials (applyVat ((examplePlayer True)\<lparr>numFramesValue := NaN, instancedModeChecked := True\<rparr>)) 0)
     = Some (Fin 24)
   \<and> statusEl (applyVat ((examplePlayer True)\<lparr>numFramesValue := NaN, instancedModeChecked := True\<rparr>))
     = VatApplied 7 (Fin 24) (Fin 24)"
proof -
  let ?s = "(examplePlayer True)\<lparr>numFramesValue := NaN, instancedModeChecked := True\<rparr>"
  have h1: "positionTexture ?s = Some \<lparr> tex_id = 0, tex_width = 64, tex_height = 64 \<rparr>"
    by (simp add: examplePlayer_def)
  have h2: "findMesh (meshSelectValue ?s) (meshes ?s) = Some (exampleMesh True)"
    by (simp add: examplePlayer_def initialPlayer_def exampleMesh_def findMesh_def)
  have h3: "hasUV2 (exampleMesh True)" by (simp add: exampleMesh_def)
  have h4: "instancedMaterialAllocated ?s"
    by (simp add: instancedMaterialAllocated_def examplePlayer_def initialPlayer_def)
  have n: "nextMaterialId ?s = 0" "numFramesValue ?s = NaN" "fpsValue ?s = Fin 0"
    "uniqueId (exampleMesh True) = 7"
    by (simp_all add: examplePlayer_def initialPlayer_def exampleMesh_def)
  obtain mat where "vatMaterial (applyVat ?s) = Some 0" "materials (applyVat ?s) 0 = Some mat"
    "sm_numFrames mat = Fin 24" "u_numFrames (shaderUniforms mat) = Fin 24"
    "statusEl (applyVat ?s) = VatApplied 7 (Fin 24) (Fin 24)"
    using applyVat_numFrames_default [OF h1 h2 h3 h4] unfolding n
    by (auto simp add: js_or_def js_truthy_def)
  then show ?thesis using h1 h2 h3 h4 by simp
qed

section \<open>Properties of the metadata parser\<close>

lemma round_nearest:
  "\<bar>of_int \<lfloor>a + 1 / 2\<rfloor> - (a::real)\<bar> \<le> 1 / 2"
  by linarith

lemma boundTriple_Some_iff:
  "(boundTriple a b c \<noteq> None) = (a \<noteq> None \<and> b \<noteq> None \<and> c \<noteq> None)"
  by (auto simp add: boundTriple_def split: option.splits)

lemma boundTriple_Some:
  "boundTriple (Some x) (Some y) (Some z) = Some (x, y, z)"
  by (simp add: boundTriple_def)

lemma parseUnityMaterial_fields:
  "m_posMin (parseUnityMaterial text) =
     boundTriple (extractFloat text ''_boundMinX'') (extractFloat text ''_boundMinY'')
       (extractFloat text ''_boundMinZ'')"
  "m_posMax (parseUnityMaterial text) =
     boundTriple (extractFloat text ''_boundMaxX'') (extractFloat text ''_boundMaxY'')
       (extractFloat text ''_boundMaxZ'')"
  "m_numFrames (parseUnityMaterial text) = map_option Math_round (extractFloat text ''_frameCount'')"
  "m_fps (parseUnityMaterial text) = extractFloat text ''_houdiniFPS''"
  by (simp_all add: parseUnityMaterial_def Let_def emptyMetadata_def split: option.splits)

text \<open>
  C6. The parser sets posMin exactly when all three of \<^verbatim>\<open>_boundMinX\<close>, \<^verbatim>\<open>_boundMinY\<close>
  and \<^verbatim>\<open>_boundMinZ\<close> were extracted, and then to the three values (likewise posMax);
  when \<^verbatim>\<open>_boundMaxZ\<close> is missing posMax is absent; and numFrames, when present, is the
  extracted \<^verbatim>\<open>_frameCount\<close> rounded to the nearest integer.
\<close>

theorem parseUnityMaterial_triples:
  "(m_posMin (parseUnityMaterial text) \<noteq> None) =
      (extractFloat text ''_boundMinX'' \<noteq> None \<and> extractFloat text ''_boundMinY'' \<noteq> None
       \<and> extractFloat text ''_boundMinZ'' \<noteq> None)
   \<and> (m_posMax (parseUnityMaterial text) \<noteq> None) =
      (extractFloat text ''_boundMaxX'' \<noteq> None \<and> extractFloat text ''_boundMaxY'' \<noteq> None
       \<and> extractFloat text ''_boundMaxZ'' \<noteq> None)
   \<and> (extractFloat text ''_boundMaxZ'' = None \<longrightarrow> m_posMax (parseUnityMaterial text) = None)
   \<and> (\<forall>x y z. extractFloat text ''_boundMinX'' = Some x \<and> extractFloat text ''_boundMinY'' = Some y
          \<and> extractFloat text ''_boundMinZ'' = Some z
          \<longrightarrow> m_posMin (parseUnityMaterial text) = Some (x, y, z))
   \<and> (\<forall>x y z. extractFloat text ''_boundMaxX'' = Some x \<and> extractFloat text ''_boundMaxY'' = Some y
          \<and> extractFloat text ''_boundMaxZ'' = Some z
          \<longrightarrow> m_posMax (parseUnityMaterial text) = Some (x, y, z))
   \<and> m_numFrames (parseUnityMaterial text) = map_option Math_round (extractFloat text ''_frameCount'')
   \<and> (\<forall>a. extractFloat text ''_frameCount'' = Some (Fin a) \<longrightarrow>
          (\<exists>k::int. m_numFrames (parseUnityMaterial text) = Some (Fin (of_int k))
             \<and> \<bar>of_int k - a\<bar> \<le> 1 / 2))"
proof -
  have r: "\<forall>a. extractFloat text ''_frameCount'' = Some (Fin a) \<longrightarrow>
          (\<exists>k::int. m_numFrames (parseUnityMaterial text) = Some (Fin (of_int k))
             \<and> \<bar>of_int k - a\<bar> \<le> 1 / 2)"
  proof (intro allI impI)
    fix a assume "extractFloat text ''_frameCount'' = Some (Fin a)"
    then have "m_numFrames (parseUnityMaterial text) = Some (Fin (of_int \<lfloor>a + 1 / 2\<rfloor>))"
      by (simp add: parseUnityMaterial_fields)
    then show "\<exists>k::int. m_numFrames (parseUnityMaterial text) = Some (Fin (of_int k))
             \<and> \<bar>of_int k - a\<bar> \<le> 1 / 2"
      using round_nearest [of a] by blast
  qed
  have a: "(m_posMin (parseUnityMaterial text) \<noteq> None) =
      (extractFloat text ''_boundMinX'' \<noteq> None \<and> extractFloat text ''_boundMinY'' \<noteq> None
       \<and> extractFloat text ''_boundMinZ'' \<noteq> None)"
    by (simp only: parseUnityMaterial_fields boundTriple_Some_iff)
  have b: "(m_posMax (parseUnityMaterial text) \<noteq> None) =
      (extractFloat text ''_boundMaxX'' \<noteq> None \<and> extractFloat text ''_boundMaxY'' \<noteq> None
       \<and> extractFloat text ''_boundMaxZ'' \<noteq> None)"
    by (simp only: parseUnityMaterial_fields boundTriple_Some_iff)
  have c: "extractFloat text ''_boundMaxZ'' = None \<longrightarrow> m_posMax (parseUnityMaterial text) = None"
    using b by blast
  have d: "\<forall>x y z. extractFloat text ''_boundMinX'' = Some x \<and> extractFloat text ''_boundMinY'' = Some y
          \<and> extractFloat text ''_boundMinZ'' = Some z
          \<longrightarrow> m_posMin (parseUnityMaterial text) = Some (x, y, z)"
    by (simp add: parseUnityMaterial_fields boundTriple_Some)
  have e: "\<forall>x y z. extractFloat text ''_boundMaxX'' = Some x \<and> extractFloat text ''_boundMaxY'' = Some y
          \<and> extractFloat text ''_boundMaxZ'' = Some z
          \<longrightarrow> m_posMax (parseUnityMaterial text) = Some (x, y, z)"
    by (simp add: parseUnityMaterial_fields boundTriple_Some)
  have f: "m_numFrames (parseUnityMaterial text) = map_option Math_round (extractFloat text ''_frameCount'')"
    by (rule parseUnityMaterial_fields)
  from a b c d e f r show ?thesis by blast
qed

lemmas parser_eval_defs =
  extractFloat_def matchAt_def isSpace_def isNumChar_def isDigit_def toUpper_def
  parseFloat_def readSign_def digitsVal_def digitVal_def exponentPart_def scaleByExponent_def

lemmas parsed_examples =
  toDouble_dyadic [of 3 1, simplified] toDouble_dyadic [of "- 3" 1, simplified]
  toDouble_dyadic [of 1 2, simplified] toDouble_dyadic [of "- 1" 2, simplified]
  toDouble_dyadic [of 95 1, simplified] toDouble_int [of 1, simplified]
  toDouble_int [of 2, simplified] toDouble_int [of 24, simplified]
  toDouble_int [of 100, simplified]

theorem parseUnityMaterial_triples_witness:
  "extractFloat exampleMaterialNoMaxZ ''_boundMaxZ'' = None
   \<and> m_posMax (parseUnityMaterial exampleMaterialNoMaxZ) = None
   \<and> m_posMin (parseUnityMaterial exampleMaterialNoMaxZ) = Some (Fin (- (3 / 2)), Fin 0, Fin (- (1 / 4)))
   \<and> m_posMax (parseUnityMaterial exampleMaterial) = Some (Fin (3 / 2), Fin 2, Fin (1 / 4))
   \<and> extractFloat exampleMaterial ''_frameCount'' = Some (Fin (95 / 2))
   \<and> m_numFrames (parseUnityMaterial exampleMaterial) = Some (Fin 48)"
proof -
  have r0: "regexMatch ''_boundMaxZ'' exampleMaterialNoMaxZ = None" by code_simp
  have r1: "regexMatch ''_boundMinX'' exampleMaterialNoMaxZ = Some ''-1.5''" by code_simp
  have r2: "regexMatch ''_boundMinY'' exampleMaterialNoMaxZ = Some ''0''" by code_simp
  have r3: "regexMatch ''_boundMinZ'' exampleMaterialNoMaxZ = Some ''-2.5e-1''" by code_simp
  have r4: "regexMatch ''_boundMaxX'' exampleMaterial = Some ''1.5''" by code_simp
  have r5: "regexMatch ''_boundMaxY'' exampleMaterial = Some ''2''" by code_simp
  have r6: "regexMatch ''_boundMaxZ'' exampleMaterial = Some ''0.25''" by code_simp
  have r7: "regexMatch ''_frameCount'' exampleMaterial = Some ''47.5''" by code_simp
  have p1: "parseFloat ''-1.5'' = Fin (- (3 / 2))"
    by (simp add: parser_eval_defs parsed_examples)
  have p2: "parseFloat ''0'' = Fin 0" by (simp add: parser_eval_defs)
  have p3: "parseFloat ''-2.5e-1'' = Fin (- (1 / 4))"
    by (simp add: parser_eval_defs parsed_examples)
  have p4: "parseFloat ''1.5'' = Fin (3 / 2)" by (simp add: parser_eval_defs parsed_examples)
  have p5: "parseFloat ''2'' = Fin 2" by (simp add: parser_eval_defs parsed_examples)
  have p6: "parseFloat ''0.25'' = Fin (1 / 4)" by (simp add: parser_eval_defs parsed_examples)
  have p7: "parseFloat ''47.5'' = Fin (95 / 2)" by (simp add: parser_eval_defs parsed_examples)
  have z: "extractFloat exampleMaterialNoMaxZ ''_boundMaxZ'' = None"
    by (simp only: extractFloat_def r0 option.map)
  have n1: "extractFloat exampleMaterialNoMaxZ ''_boundMinX'' = Some (Fin (- (3 / 2)))"
    by (simp only: extractFloat_def r1 option.map p1)
  have n2: "extractFloat exampleMaterialNoMaxZ ''_boundMinY'' = Some (Fin 0)"
    by (simp only: extractFloat_def r2 option.map p2)
  have n3: "extractFloat exampleMaterialNoMaxZ ''_boundMinZ'' = Some (Fin (- (1 / 4)))"
    by (simp only: extractFloat_def r3 option.map p3)
  have x1: "extractFloat exampleMaterial ''_boundMaxX'' = Some (Fin (3 / 2))"
    by (simp only: extractFloat_def r4 option.map p4)
  have x2: "extractFloat exampleMaterial ''_boundMaxY'' = Some (Fin 2)"
    by (simp only: extractFloat_def r5 option.map p5)
  have x3: "extractFloat exampleMaterial ''_boundMaxZ'' = Some (Fin (1 / 4))"
    by (simp only: extractFloat_def r6 option.map p6)
  have fc: "extractFloat exampleMaterial ''_frameCount'' = Some (Fin (95 / 2))"
    by (simp only: extractFloat_def r7 option.map p7)
  have a: "m_posMax (parseUnityMaterial exampleMaterialNoMaxZ) = None"
    and b: "m_posMin (parseUnityMaterial exampleMaterialNoMaxZ) = Some (Fin (- (3 / 2)), Fin 0, Fin (- (1 / 4)))"
    using parseUnityMaterial_triples [of exampleMaterialNoMaxZ] z n1 n2 n3 by blast+
  have c: "m_posMax (parseUnityMaterial exampleMaterial) = Some (Fin (3 / 2), Fin 2, Fin (1 / 4))"
    using parseUnityMaterial_triples [of exampleMaterial] x1 x2 x3 by blast
  have "m_numFrames (parseUnityMaterial exampleMaterial) = map_option Math_round (Some (Fin (95 / 2)))"
    using parseUnityMaterial_triples [of exampleMaterial] fc by simp
  then have d: "m_numFrames (parseUnityMaterial exampleMaterial) = Some (Fin 48)" by simp
  from z a b c fc d show ?thesis by blast
qed

lemma span_append:
  assumes "\<forall>c\<in>set xs. P c" and "ys = [] \<or> \<not> P (hd ys)"
  shows "takeWhile P (xs @ ys) = xs" and "dropWhile P (xs @ ys) = ys"
proof -
  have t: "takeWhile P ys = []" and d: "dropWhile P ys = ys"
    using assms(2) by (cases ys; simp)+
  show "takeWhile P (xs @ ys) = xs" using assms(1) t by (simp add: takeWhile_append2)
  show "dropWhile P (xs @ ys) = ys" using assms(1) d by (simp add: dropWhile_append2)
qed

lemma isDigit_simps:
  "\<not> isDigit CHR ''.''" "\<not> isDigit CHR ''-''" "\<not> isDigit CHR ''+''" "\<not> isDigit CHR ''e''"
  "\<not> isDigit CHR ''E''" "\<not> isDigit CHR ''I''"
  by (simp_all add: isDigit_def)

lemma isDigit_not_space: "isDigit c \<Longrightarrow> \<not> isSpace c"
  by (auto simp add: isDigit_def isSpace_def)

lemma isNumChar_not_space: "isNumChar c \<Longrightarrow> \<not> isSpace c"
  by (auto simp add: isNumChar_def isDigit_def isSpace_def)

lemma isDigit_isNumChar: "isDigit c \<Longrightarrow> isNumChar c"
  by (simp add: isNumChar_def)

lemma toUpper_underscore: "toUpper c = CHR ''_'' \<Longrightarrow> c = CHR ''_''"
  by (simp add: toUpper_def split: if_splits)

lemma matchName_append:
  "map toUpper nm = map toUpper name \<Longrightarrow> matchName name (nm @ t) = Some t"
proof (induction name arbitrary: nm)
  case Nil
  then show ?case by simp
next
  case (Cons p ps)
  then obtain c cs where nm: "nm = c # cs" by (cases nm) auto
  with Cons.prems have "toUpper c = toUpper p" and "map toUpper cs = map toUpper ps" by simp_all
  then show ?case using Cons.IH [of cs] by (simp add: nm)
qed

lemma regexMatch_skip:
  "\<forall>i<length pre. matchAt name (drop i (pre @ t)) = None \<Longrightarrow>
   regexMatch name (pre @ t) = regexMatch name t"
proof (induction pre)
  case Nil
  then show ?case by simp
next
  case (Cons p ps)
  have "matchAt name (drop 0 ((p # ps) @ t)) = None" using Cons.prems by blast
  then have h: "matchAt name (p # ps @ t) = None" by simp
  have "\<forall>i<length ps. matchAt name (drop i (ps @ t)) = None"
  proof (intro allI impI)
    fix i assume "i < length ps"
    then have "Suc i < length (p # ps)" by simp
    then have "matchAt name (drop (Suc i) ((p # ps) @ t)) = None" using Cons.prems by blast
    then show "matchAt name (drop i (ps @ t)) = None" by simp
  qed
  then have "regexMatch name (ps @ t) = regexMatch name t" by (rule Cons.IH)
  then show ?case using h by simp
qed

lemma regexMatch_here:
  "matchAt name t = Some cap \<Longrightarrow> regexMatch name t = Some cap"
  by (cases t) (simp_all add: matchAt_def)

lemma regexMatch_None_iff:
  "(regexMatch name s = None) = (\<forall>i<length s. matchAt name (drop i s) = None)"
proof (induction s)
  case Nil
  then show ?case by simp
next
  case (Cons c cs)
  have "(\<forall>i<length (c # cs). matchAt name (drop i (c # cs)) = None) =
        (matchAt name (c # cs) = None \<and> (\<forall>i<length cs. matchAt name (drop i cs) = None))"
    (is "?L = ?R")
  proof
    assume l: ?L
    have "matchAt name (drop 0 (c # cs)) = None" using l by blast
    moreover have "\<forall>i<length cs. matchAt name (drop i cs) = None"
    proof (intro allI impI)
      fix i assume "i < length cs"
      then have "Suc i < length (c # cs)" by simp
      then have "matchAt name (drop (Suc i) (c # cs)) = None" using l by blast
      then show "matchAt name (drop i cs) = None" by simp
    qed
    ultimately show ?R by simp
  next
    assume r: ?R
    show ?L
    proof (intro allI impI)
      fix i assume "i < length (c # cs)"
      then show "matchAt name (drop i (c # cs)) = None"
        using r by (cases i) simp_all
    qed
  qed
  then show ?case using Cons.IH by (simp split: option.splits)
qed

lemma vendorField_shape:
  assumes "name \<in> set vendorFields"
  shows "\<exists>ps. name = CHR ''_'' # ps"
  using assms by (auto simp add: vendorFields_def)

lemma matchAt_line:
  assumes name: "name \<in> set vendorFields"
    and nm: "map toUpper nm = map toUpper name"
    and ws1: "\<forall>c\<in>set ws1. isSpace c" and ws2: "\<forall>c\<in>set ws2. isSpace c"
    and num: "num \<noteq> []" "\<forall>c\<in>set num. isNumChar c"
    and rest: "rest = [] \<or> \<not> isNumChar (hd rest)"
  shows "matchAt name (CHR ''-'' # ws1 @ nm @ CHR '':'' # ws2 @ num @ rest) = Some num"
proof -
  obtain ps where "name = CHR ''_'' # ps" using vendorField_shape [OF name] by blast
  moreover have u: "toUpper CHR ''_'' = CHR ''_''" by (simp add: toUpper_def)
  ultimately obtain cs where "nm = CHR ''_'' # cs"
    using nm by (cases nm) (auto simp add: u dest: toUpper_underscore)
  then have h1: "nm @ CHR '':'' # ws2 @ num @ rest = [] \<or> \<not> isSpace (hd (nm @ CHR '':'' # ws2 @ num @ rest))"
    by (simp add: isSpace_def)
  have d1: "dropWhile isSpace (ws1 @ nm @ CHR '':'' # ws2 @ num @ rest) = nm @ CHR '':'' # ws2 @ num @ rest"
    using span_append(2) [OF ws1 h1] by simp
  have m: "matchName name (nm @ CHR '':'' # ws2 @ num @ rest) = Some (CHR '':'' # ws2 @ num @ rest)"
    by (rule matchName_append [OF nm])
  have "isNumChar (hd num)" using num by (cases num) simp_all
  then have h2: "num @ rest = [] \<or> \<not> isSpace (hd (num @ rest))"
    using num(1) by (simp add: isNumChar_not_space)
  have d2: "dropWhile isSpace (ws2 @ num @ rest) = num @ rest"
    using span_append(2) [OF ws2 h2] by simp
  have t: "takeWhile isNumChar (num @ rest) = num"
    by (rule span_append(1) [OF num(2) rest])
  show ?thesis
    by (simp add: matchAt_def d1 m d2 t num(1))
qed

lemma numberText_chars:
  assumes "ip \<noteq> []" and "\<forall>c\<in>set ip. isDigit c" and "\<forall>c\<in>set fp. isDigit c"
    and "\<forall>c\<in>set ed. isDigit c" and "ec = CHR ''e'' \<or> ec = CHR ''E''"
  shows "numberText neg ip fp ec eneg ed \<noteq> []"
    and "\<forall>c\<in>set (numberText neg ip fp ec eneg ed). isNumChar c"
  using assms by (auto simp add: numberText_def isNumChar_def)

lemma exponentPart_text:
  assumes ed: "\<forall>c\<in>set ed. isDigit c" and ec: "ec = CHR ''e'' \<or> ec = CHR ''E''"
  shows "exponentPart (if ed = [] then [] else ec # (if eneg then ''-'' else []) @ ed) =
           (if eneg then - int (digitsVal ed) else int (digitsVal ed))"
proof (cases "ed = []")
  case True
  then show ?thesis by (simp add: exponentPart_def digitsVal_def)
next
  case False
  then obtain d ds where e: "ed = d # ds" by (cases ed) auto
  then have dd: "isDigit d" using ed by simp
  have rs: "readSign ((if eneg then ''-'' else []) @ ed) = (eneg, ed)"
    using dd e isDigit_simps by (auto simp add: readSign_def)
  have tw: "takeWhile isDigit ed = ed" using ed by (simp add: takeWhile_eq_all_conv)
  show ?thesis using False ec by (auto simp add: exponentPart_def rs tw)
qed

lemma scaleByExponent_value:
  "scaleByExponent m (if eneg then - int d else int d) = (if eneg then m / 10 ^ d else m * 10 ^ d)"
  by (cases "d = 0") (simp_all add: scaleByExponent_def)

lemma parseFloat_numberText:
  assumes ip: "ip \<noteq> []" "\<forall>c\<in>set ip. isDigit c" and fp: "\<forall>c\<in>set fp. isDigit c"
    and ed: "\<forall>c\<in>set ed. isDigit c" and ec: "ec = CHR ''e'' \<or> ec = CHR ''E''"
  shows "parseFloat (numberText neg ip fp ec eneg ed) = toDouble (numberValue neg ip fp eneg ed)"
proof -
  define ex where "ex = (if ed = [] then [] else ec # (if eneg then ''-'' else []) @ ed)"
  define fr where "fr = (if fp = [] then [] else CHR ''.'' # fp)"
  define body where "body = ip @ fr @ ex"
  obtain d ds where ipc: "ip = d # ds" using ip(1) by (cases ip) auto
  then have dd: "isDigit d" using ip(2) by simp
  have nt: "numberText neg ip fp ec eneg ed = (if neg then ''-'' else []) @ body"
    by (simp add: numberText_def body_def fr_def ex_def)
  have hb: "hd body = d" "body \<noteq> []" by (simp_all add: body_def ipc)
  have sp: "dropWhile isSpace (numberText neg ip fp ec eneg ed) = numberText neg ip fp ec eneg ed"
  proof (cases neg)
    case True
    then show ?thesis unfolding nt by (simp add: isSpace_def)
  next
    case False
    then show ?thesis unfolding nt using hb isDigit_not_space [OF dd] by (cases body) simp_all
  qed
  have rs: "readSign (numberText neg ip fp ec eneg ed) = (neg, body)"
  proof (cases neg)
    case True
    then show ?thesis unfolding nt by (simp add: readSign_def)
  next
    case False
    then show ?thesis unfolding nt using hb dd isDigit_simps
      by (cases body) (auto simp add: readSign_def)
  qed
  have inf: "take 8 body \<noteq> ''Infinity''"
  proof
    assume "take 8 body = ''Infinity''"
    then have "hd (take 8 body) = CHR ''I''" by simp
    then have "d = CHR ''I''" using hb by (cases body) simp_all
    with dd isDigit_simps show False by simp
  qed
  have exh: "ex = [] \<or> \<not> isDigit (hd ex)"
    using ec isDigit_simps by (auto simp add: ex_def)
  have frh: "fr @ ex = [] \<or> \<not> isDigit (hd (fr @ ex))"
    using exh isDigit_simps by (auto simp add: fr_def)
  have t1: "takeWhile isDigit body = ip" and d1: "dropWhile isDigit body = fr @ ex"
    unfolding body_def using span_append [OF ip(2) frh] by simp_all
  have fd: "(case fr @ ex of [] \<Rightarrow> [] | c # r \<Rightarrow> if c = CHR ''.'' then takeWhile isDigit r else []) = fp"
  proof (cases "fp = []")
    case True
    then have "fr @ ex = ex" by (simp add: fr_def)
    moreover have "ex = [] \<or> hd ex \<noteq> CHR ''.''" using ec by (auto simp add: ex_def)
    ultimately show ?thesis using True by (cases ex) auto
  next
    case False
    then have "fr @ ex = CHR ''.'' # fp @ ex" by (simp add: fr_def)
    then show ?thesis using span_append(1) [OF fp exh] by simp
  qed
  have r2: "(case fr @ ex of [] \<Rightarrow> [] | c # r \<Rightarrow> if c = CHR ''.'' then dropWhile isDigit r else fr @ ex) = ex"
  proof (cases "fp = []")
    case True
    then have "fr @ ex = ex" by (simp add: fr_def)
    moreover have "ex = [] \<or> hd ex \<noteq> CHR ''.''" using ec by (auto simp add: ex_def)
    ultimately show ?thesis by (cases ex) auto
  next
    case False
    then have "fr @ ex = CHR ''.'' # fp @ ex" by (simp add: fr_def)
    then show ?thesis using span_append(2) [OF fp exh] by simp
  qed
  have ep: "exponentPart ex = (if eneg then - int (digitsVal ed) else int (digitsVal ed))"
    unfolding ex_def by (rule exponentPart_text [OF ed ec])
  show ?thesis
    unfolding parseFloat_def sp rs
    by (simp add: inf t1 d1 fd r2 ep scaleByExponent_value ip(1) Let_def numberValue_def)
qed

text \<open>
  A line \<^verbatim>\<open>- NAME: NUMBER\<close> of a metadata file, the first place of the text that
  matches the pattern (the name in any case, white space allowed after the dash and
  after the colon, the number with an optional minus sign, an optional decimal point
  and an optional exponent with an optional minus sign, and no plus sign): the
  extractor yields the double nearest to the number the text denotes; and a field is
  omitted exactly when no place of the text matches the pattern.
\<close>

lemma extractFloat_vendor_line:
  assumes name: "name \<in> set vendorFields"
    and nm: "map toUpper nm = map toUpper name"
    and ws1: "list_all isSpace ws1" and ws2: "list_all isSpace ws2"
    and ip: "ip \<noteq> []" "list_all isDigit ip" and fp: "list_all isDigit fp"
    and ed: "list_all isDigit ed" and ec: "ec \<in> set ''eE''"
    and rest: "list_all (\<lambda>c. \<not> isNumChar c) (take 1 rest)"
    and first: "list_all (\<lambda>i. matchAt name
                  (drop i (pre @ CHR ''-'' # ws1 @ nm @ CHR '':'' # ws2
                             @ numberText neg ip fp ec eneg ed @ rest)) = None)
                  [0..<length pre]"
  shows "extractFloat (pre @ CHR ''-'' # ws1 @ nm @ CHR '':'' # ws2
                         @ numberText neg ip fp ec eneg ed @ rest) name
           = Some (toDouble (numberValue neg ip fp eneg ed))
       \<and> (extractFloat other name = None)
           = list_all (\<lambda>i. matchAt name (drop i other) = None) [0..<length other]"
proof -
  let ?num = "numberText neg ip fp ec eneg ed"
  let ?line = "CHR ''-'' # ws1 @ nm @ CHR '':'' # ws2 @ ?num @ rest"
  have ws1': "\<forall>c\<in>set ws1. isSpace c" and ws2': "\<forall>c\<in>set ws2. isSpace c"
    and ip': "\<forall>c\<in>set ip. isDigit c" and fp': "\<forall>c\<in>set fp. isDigit c"
    and ed': "\<forall>c\<in>set ed. isDigit c"
    using ws1 ws2 ip(2) fp ed by (simp_all add: list_all_iff)
  have ec': "ec = CHR ''e'' \<or> ec = CHR ''E''" using ec by simp
  have rest': "rest = [] \<or> \<not> isNumChar (hd rest)" using rest by (cases rest) simp_all
  have first': "\<forall>i<length pre. matchAt name (drop i (pre @ ?line)) = None"
    using first by (auto simp add: list_all_iff)
  have nc: "?num \<noteq> []" "\<forall>c\<in>set ?num. isNumChar c"
    using numberText_chars [OF ip(1) ip' fp' ed' ec'] by simp_all
  have "matchAt name ?line = Some ?num"
    by (rule matchAt_line [OF name nm ws1' ws2' nc rest'])
  then have "regexMatch name ?line = Some ?num" by (rule regexMatch_here)
  moreover have "regexMatch name (pre @ ?line) = regexMatch name ?line"
    by (rule regexMatch_skip [OF first'])
  ultimately have "extractFloat (pre @ ?line) name = Some (parseFloat ?num)"
    by (simp add: extractFloat_def)
  then have a: "extractFloat (pre @ ?line) name = Some (toDouble (numberValue neg ip fp eneg ed))"
    by (simp add: parseFloat_numberText [OF ip(1) ip' fp' ed' ec'])
  have b: "(extractFloat other name = None)
            = list_all (\<lambda>i. matchAt name (drop i other) = None) [0..<length other]"
    by (auto simp add: extractFloat_def regexMatch_None_iff list_all_iff)
  from a b show ?thesis by blast
qed

lemma parseFloat_overflow: "parseFloat ''1e400'' = PInf"
proof -
  have "(2::real) powi (1023 + 1) \<le> 10 ^ 400" by simp
  then have "toDouble (10 ^ 400) = PInf"
    unfolding toDouble_def by (intro toFloat_overflow) simp_all
  then show ?thesis by (simp add: parser_eval_defs)
qed

text \<open>
  C9. The claim: the numeric value of a line \<^verbatim>\<open>- NAME: NUMBER\<close> may include a sign, a
  decimal point and an exponent, and the captured number is parsed. The class of the
  captured group, \<^verbatim>\<open>[\d.\-e]\<close>, has the minus sign and the letter of the exponent but no
  plus sign: of \<^verbatim>\<open>1e+2\<close> it captures \<^verbatim>\<open>1e\<close>, so the field is read as 1 where
  \<^verbatim>\<open>parseFloat\<close> reads the whole number as 100, and a value written \<^verbatim>\<open>+24\<close> is not
  found at all, although \<^verbatim>\<open>parseFloat\<close> reads it as 24.
\<close>

theorem extractFloat_plus_sign:
  "regexMatch ''_houdiniFPS'' ''- _houdiniFPS: 1e+2'' = Some ''1e''
   \<and> extractFloat ''- _houdiniFPS: 1e+2'' ''_houdiniFPS'' = Some (Fin 1)
   \<and> parseFloat ''1e+2'' = Fin 100
   \<and> extractFloat ''- _houdiniFPS: 1e-2'' ''_houdiniFPS'' = Some (parseFloat ''1e-2'')
   \<and> extractFloat ''- _houdiniFPS: +24'' ''_houdiniFPS'' = None
   \<and> parseFloat ''+24'' = Fin 24"
  by (simp add: parser_eval_defs parsed_examples)

end
